theory Spec2Isabelle
  imports Main "HOL-Library.Word" "HOL-Library.Sublist"
begin

unbundle bit_operations_syntax

section \<open>Data model of pkg/chain/tx/script/opcode.go\<close>

type_synonym byte = "8 word"

text \<open>
  The script error codes that the handlers of opcode.go return, together with the codes
  of the stack and number helpers they call. \<open>RuntimePanic\<close> stands for a Go runtime
  panic (a slice index out of range); it is not an \<open>ErrorCode\<close> of the package.
\<close>

datatype ErrorCode =
    ErrInternal
  | ErrMinimalData
  | ErrDisabledOpcode
  | ErrReservedOpcode
  | ErrDiscourageUpgradableNOPs
  | ErrMinimalIf
  | ErrUnbalancedConditional
  | ErrVerify
  | ErrEarlyReturn
  | ErrUnsatisfiedLockTime
  | ErrNegativeLockTime
  | ErrInvalidPubKeyCount
  | ErrInvalidSignatureCount
  | ErrTooManyOperations
  | ErrSigNullDummy
  | ErrNullFail
  | ErrCheckSigVerify
  | ErrCheckMultiSigVerify
  | ErrStackUnderflow
  | ErrNumberTooBig
  | ErrMalformedPush
  | ErrInvalidSigHashType
  | ErrSigEncoding
  | ErrPubKeyType
  | RuntimePanic

text \<open>
  \<open>type opcode struct { value byte; name string; length int; opfunc ... }\<close>.
  The name is only used in error messages and in disassembly and is left out; the handler
  \<open>opfunc\<close> is the dispatch of \<open>opfunc\<close> further down.
\<close>

record opcode =
  opvalue :: byte
  oplength :: int

definition OpZero :: byte where "OpZero = 0x00"
definition OpData1 :: byte where "OpData1 = 0x01"
definition OpData75 :: byte where "OpData75 = 0x4b"
definition OpPushData1 :: byte where "OpPushData1 = 0x4c"
definition OpPushData2 :: byte where "OpPushData2 = 0x4d"
definition OpPushData4 :: byte where "OpPushData4 = 0x4e"
definition Op1Negate :: byte where "Op1Negate = 0x4f"
definition Op1 :: byte where "Op1 = 0x51"
definition Op16 :: byte where "Op16 = 0x60"
definition OpIf :: byte where "OpIf = 0x63"
definition OpIfNot :: byte where "OpIfNot = 0x64"
definition OpVerIf :: byte where "OpVerIf = 0x65"
definition OpVerIfNot :: byte where "OpVerIfNot = 0x66"
definition OpElse :: byte where "OpElse = 0x67"
definition OpEndIf :: byte where "OpEndIf = 0x68"
definition OpCat :: byte where "OpCat = 0x7e"
definition OpSubstr :: byte where "OpSubstr = 0x7f"
definition OpLeft :: byte where "OpLeft = 0x80"
definition OpRight :: byte where "OpRight = 0x81"
definition OpInvert :: byte where "OpInvert = 0x83"
definition OpAnd :: byte where "OpAnd = 0x84"
definition OpOr :: byte where "OpOr = 0x85"
definition OpXor :: byte where "OpXor = 0x86"
definition Op1Mul :: byte where "Op1Mul = 0x8d"
definition Op2Div :: byte where "Op2Div = 0x8e"
definition OpMul :: byte where "OpMul = 0x95"
definition OpDiv :: byte where "OpDiv = 0x96"
definition OpMod :: byte where "OpMod = 0x97"
definition OpLShift :: byte where "OpLShift = 0x98"
definition OpRShift :: byte where "OpRShift = 0x99"
definition OpCheckSig :: byte where "OpCheckSig = 0xac"
definition OpCheckMultiSig :: byte where "OpCheckMultiSig = 0xae"
definition OpCheckLockTimeVerify :: byte where "OpCheckLockTimeVerify = 0xb1"

lemmas opcode_values =
  OpZero_def OpData1_def OpData75_def OpPushData1_def OpPushData2_def OpPushData4_def
  Op1Negate_def Op1_def Op16_def OpIf_def OpIfNot_def OpVerIf_def OpVerIfNot_def
  OpElse_def OpEndIf_def OpCat_def OpSubstr_def OpLeft_def OpRight_def OpInvert_def
  OpAnd_def OpOr_def OpXor_def Op1Mul_def Op2Div_def OpMul_def OpDiv_def OpMod_def
  OpLShift_def OpRShift_def OpCheckSig_def OpCheckMultiSig_def OpCheckLockTimeVerify_def

text \<open>
  \<open>opcodeArray\<close>: the 256 entries of the table, by value. The entry of \<open>OpDataN\<close>
  (0x01 to 0x4b) has length N + 1, those of \<open>OpPushData1/2/4\<close> have the lengths -1, -2
  and -4, and every other entry (\<open>OpZero\<close> included) has length 1.
\<close>

definition opcodeArray :: "byte \<Rightarrow> opcode" where
  "opcodeArray v =
     \<lparr> opvalue = v,
       oplength =
         (if OpData1 \<le> v \<and> v \<le> OpData75 then uint v + 1
          else if v = OpPushData1 then -1
          else if v = OpPushData2 then -2
          else if v = OpPushData4 then -4
          else 1) \<rparr>"

text \<open>\<open>type parsedOpcode struct { opcode *opcode; data []byte }\<close>\<close>

record parsedOpcode =
  opcode :: opcode
  data :: "byte list"

section \<open>checkMinimalDataPush\<close>

text \<open>
  The chain of \<open>if ... else if\<close> of the source, in its order. \<open>data[0]\<close> is read only
  behind \<open>dataLen == 1\<close>; \<open>Op1+data[0]-1\<close> is byte arithmetic; \<open>int(opcode)\<close> is
  the unsigned value of the byte.
\<close>

definition checkMinimalDataPush :: "parsedOpcode \<Rightarrow> ErrorCode + unit" where
  "checkMinimalDataPush pop =
     (let d = data pop; dataLen = length d; opc = opvalue (opcode pop) in
      if dataLen = 0 \<and> opc \<noteq> OpZero then Inl ErrMinimalData
      else if dataLen = 1 \<and> d ! 0 \<ge> 1 \<and> d ! 0 \<le> 16 then
        (if opc \<noteq> Op1 + d ! 0 - 1 then Inl ErrMinimalData else Inr ())
      else if dataLen = 1 \<and> d ! 0 = 0x81 then
        (if opc \<noteq> Op1Negate then Inl ErrMinimalData else Inr ())
      else if dataLen \<le> 75 then
        (if unat opc \<noteq> dataLen then Inl ErrMinimalData else Inr ())
      else if dataLen \<le> 255 then
        (if opc \<noteq> OpPushData1 then Inl ErrMinimalData else Inr ())
      else if dataLen \<le> 65535 then
        (if opc \<noteq> OpPushData2 then Inl ErrMinimalData else Inr ())
      else Inr ())"

text \<open>
  The canonical encoding of a push as the specification words it: each rule names the
  opcode that a payload of that shape must use. The small-integer and negate-one rules
  take a one-byte payload out of the direct-push rule.
\<close>

definition isSmallInt :: "byte list \<Rightarrow> bool" where
  "isSmallInt d = (length d = 1 \<and> 1 \<le> unat (hd d) \<and> unat (hd d) \<le> 16)"

definition isNegOne :: "byte list \<Rightarrow> bool" where
  "isNegOne d = (d = [0x81])"

definition canonicalPush :: "parsedOpcode \<Rightarrow> bool" where
  "canonicalPush pop =
     (let d = data pop; n = length d; opc = unat (opvalue (opcode pop)) in
      (n = 0 \<longrightarrow> opc = 0x00) \<and>
      (isSmallInt d \<longrightarrow> opc = 0x50 + unat (hd d)) \<and>
      (isNegOne d \<longrightarrow> opc = 0x4f) \<and>
      (n \<le> 75 \<and> \<not> isSmallInt d \<and> \<not> isNegOne d \<longrightarrow> opc = n) \<and>
      (76 \<le> n \<and> n \<le> 255 \<longrightarrow> opc = 0x4c) \<and>
      (256 \<le> n \<and> n \<le> 65535 \<longrightarrow> opc = 0x4d))"

subsection \<open>Properties of checkMinimalDataPush\<close>

lemma small_byte_op:
  "1 \<le> unat (b::byte) \<Longrightarrow> unat b \<le> 16 \<Longrightarrow>
   (opc = Op1 + b - 1) = (unat opc = 0x50 + unat b)"
  apply (simp add: Op1_def)
  apply (subst word_unat_eq_iff)
  apply (simp add: unat_word_ariths)
  done

lemma opcode_unat:
  "(opc = OpZero) = (unat opc = 0)"
  "(opc = Op1Negate) = (unat opc = 0x4f)"
  "(opc = OpPushData1) = (unat opc = 0x4c)"
  "(opc = OpPushData2) = (unat opc = 0x4d)"
  by (simp_all add: opcode_values word_unat_eq_iff)

lemma not_one_byte: "length d \<noteq> 1 \<Longrightarrow> \<not> isSmallInt d \<and> \<not> isNegOne d"
  by (auto simp: isSmallInt_def isNegOne_def)

text \<open>
  C8. The minimal-push check returns success exactly for the canonical encodings (OP_0 for
  the empty payload, the small-integer opcode for one byte 1..16, the negate-one opcode for
  the byte 0x81, the direct push of the payload's length up to 75 bytes, PUSHDATA1 for
  76..255 bytes, PUSHDATA2 for 256..65535 bytes), and returns the minimal-data error for
  every other combination.
\<close>

theorem checkMinimalDataPush_canonical:
  "checkMinimalDataPush pop = (if canonicalPush pop then Inr () else Inl ErrMinimalData)"
proof (cases "length (data pop) = 1")
  case True
  then obtain b where d: "data pop = [b]"
    by (cases "data pop") simp_all
  show ?thesis
  proof (cases "1 \<le> unat b \<and> unat b \<le> 16")
    case True
    then have ne: "b \<noteq> 0x81" by auto
    from True have le: "1 \<le> b \<and> b \<le> 16" by (simp add: word_le_nat_alt)
    from True show ?thesis
      using small_byte_op [of b "opvalue (opcode pop)"]
      by (simp add: checkMinimalDataPush_def canonicalPush_def Let_def d isSmallInt_def
            isNegOne_def ne le)
  next
    case False
    then have le: "\<not> (1 \<le> b \<and> b \<le> 16)" by (simp add: word_le_nat_alt)
    from False show ?thesis
      by (simp add: checkMinimalDataPush_def canonicalPush_def Let_def d isSmallInt_def
            isNegOne_def le opcode_unat(2))
  qed
next
  case False
  note ns = not_one_byte [OF False]
  show ?thesis
  proof (cases "data pop = []")
    case True
    then show ?thesis
      by (simp add: checkMinimalDataPush_def canonicalPush_def Let_def opcode_unat(1)
            isSmallInt_def isNegOne_def)
  next
    case False
    then have "0 < length (data pop)" by simp
    with False \<open>length (data pop) \<noteq> 1\<close> ns show ?thesis
      by (simp add: checkMinimalDataPush_def canonicalPush_def Let_def opcode_unat(3,4))
  qed
qed

theorem checkMinimalDataPush_canonical_witness:
  "canonicalPush \<lparr>opcode = opcodeArray 0x02, data = [7, 9]\<rparr> \<and>
   checkMinimalDataPush \<lparr>opcode = opcodeArray 0x02, data = [7, 9]\<rparr> = Inr () \<and>
   \<not> canonicalPush \<lparr>opcode = opcodeArray 0x01, data = [7]\<rparr> \<and>
   checkMinimalDataPush \<lparr>opcode = opcodeArray 0x01, data = [7]\<rparr> = Inl ErrMinimalData"
  using checkMinimalDataPush_canonical [of "\<lparr>opcode = opcodeArray 0x02, data = [7, 9]\<rparr>"]
    checkMinimalDataPush_canonical [of "\<lparr>opcode = opcodeArray 0x01, data = [7]\<rparr>"]
  by (simp add: canonicalPush_def isSmallInt_def isNegOne_def opcodeArray_def)

text \<open>
  C10. A payload longer than 65535 bytes passes the minimal-push check whatever opcode
  carried it: the case analysis ends at the PUSHDATA2 bound.
\<close>

theorem checkMinimalDataPush_oversized:
  "65535 < length (data pop) \<Longrightarrow> checkMinimalDataPush pop = Inr ()"
  by (auto simp add: checkMinimalDataPush_def Let_def)

theorem checkMinimalDataPush_oversized_witness:
  "65535 < length (data \<lparr>opcode = opcodeArray OpData1, data = replicate 65536 0\<rparr>) \<and>
   checkMinimalDataPush \<lparr>opcode = opcodeArray OpData1, data = replicate 65536 0\<rparr> = Inr ()"
  using checkMinimalDataPush_oversized
    [of "\<lparr>opcode = opcodeArray OpData1, data = replicate 65536 0\<rparr>"]
  by simp

section \<open>Serialising and decoding parsed opcodes\<close>

text \<open>\<open>binary.LittleEndian.Uint16\<close> and \<open>Uint32\<close>: the value of a little-endian prefix.\<close>

definition leUint :: "byte list \<Rightarrow> int" where
  "leUint bs = foldr (\<lambda>b acc. uint b + 256 * acc) bs 0"

text \<open>
  \<open>func (pop *parsedOpcode) bytes() ([]byte, error)\<close>. \<open>byte(x)\<close> is \<open>word_of_int\<close>;
  \<open>l>>8&0xff\<close> is \<open>(l>>8)&0xff\<close> in Go. \<open>nbytes\<close> starts as the opcode's length and is
  recomputed from the prefix just written in the three cases of the \<open>switch\<close>.
\<close>

definition bytes :: "parsedOpcode \<Rightarrow> ErrorCode + byte list" where
  "bytes pop =
     (let len = oplength (opcode pop); retbytes = [opvalue (opcode pop)] in
      if len = 1 then
        (if length (data pop) \<noteq> 0 then Inl ErrInternal else Inr retbytes)
      else
        let l = int (length (data pop));
            retbytes =
              (if len = -1 then retbytes @ [word_of_int l]
               else if len = -2 then
                 retbytes @ [word_of_int (l AND 0xff), word_of_int (drop_bit 8 l AND 0xff)]
               else if len = -4 then
                 retbytes @ [word_of_int (l AND 0xff), word_of_int (drop_bit 8 l AND 0xff),
                   word_of_int (drop_bit 16 l AND 0xff), word_of_int (drop_bit 24 l AND 0xff)]
               else retbytes);
            nbytes =
              (if len = -1 \<or> len = -2 \<or> len = -4
               then leUint (tl retbytes) + int (length retbytes)
               else len);
            retbytes = retbytes @ data pop
        in if int (length retbytes) \<noteq> nbytes then Inl ErrInternal else Inr retbytes)"

text \<open>
  Modelled from the spec: the decoder \<open>parseScript\<close> is in script.go, which is not among
  the sources. Section 4.3: a byte in the direct-push range is itself the length and that
  many following bytes are the payload; PUSHDATA1/2/4 read a 1/2/4-byte little-endian
  length prefix, then that many payload bytes; every other opcode consumes one byte and
  has no data; decoding fails when a declared length runs past the end of the script.
  The descriptor of each parsed opcode is the entry of \<open>opcodeArray\<close>.
\<close>

fun parseScript :: "byte list \<Rightarrow> ErrorCode + parsedOpcode list" where
  "parseScript [] = Inr []"
| "parseScript (instr # rest) =
     (let op = opcodeArray instr; len = oplength op in
      if len = 1 then
        (case parseScript rest of
           Inl e \<Rightarrow> Inl e
         | Inr pops \<Rightarrow> Inr (\<lparr>opcode = op, data = []\<rparr> # pops))
      else if len > 1 then
        (if int (length rest) < len - 1 then Inl ErrMalformedPush
         else
           (case parseScript (drop (nat (len - 1)) rest) of
              Inl e \<Rightarrow> Inl e
            | Inr pops \<Rightarrow> Inr (\<lparr>opcode = op, data = take (nat (len - 1)) rest\<rparr> # pops)))
      else
        (if int (length rest) < - len then Inl ErrMalformedPush
         else
           let l = leUint (take (nat (- len)) rest); body = drop (nat (- len)) rest in
           if l > int (length body) then Inl ErrMalformedPush
           else
             (case parseScript (drop (nat l) body) of
                Inl e \<Rightarrow> Inl e
              | Inr pops \<Rightarrow> Inr (\<lparr>opcode = op, data = take (nat l) body\<rparr> # pops))))"

text \<open>
  Modelled from the spec: \<open>unparseScript\<close> (script.go, not among the sources) re-encodes a
  decoded script by concatenating the \<open>bytes\<close> of its parsed opcodes in order, and fails
  with the first error of \<open>bytes\<close>.
\<close>

fun unparseScript :: "parsedOpcode list \<Rightarrow> ErrorCode + byte list" where
  "unparseScript [] = Inr []"
| "unparseScript (pop # pops) =
     (case bytes pop of
        Inl e \<Rightarrow> Inl e
      | Inr b \<Rightarrow> (case unparseScript pops of Inl e \<Rightarrow> Inl e | Inr bs \<Rightarrow> Inr (b @ bs)))"

subsection \<open>Round trip\<close>

lemma byte_and_ff: "(word_of_int (y AND 0xff) :: byte) = word_of_int y"
proof -
  have m: "(0xff::int) = mask 8" by (simp add: mask_eq_exp_minus_1)
  show ?thesis unfolding m by (simp add: word_of_int_eq_iff flip: take_bit_eq_mask)
qed

lemma byte_of_le: "(word_of_int (uint (b::byte) + 256 * r) :: byte) = b"
proof -
  have "(word_of_int (uint b + 256 * r) :: byte) = word_of_int (uint b)"
    by (subst word_of_int_eq_iff) (simp add: take_bit_eq_mod)
  then show ?thesis by (simp only: word_of_int_uint)
qed

lemma drop8_le: "drop_bit 8 (uint (b::byte) + 256 * r) = r"
proof -
  have "0 \<le> uint b" "uint b < 256" using uint_lt2p [of b] by simp_all
  then show ?thesis by (simp add: drop_bit_eq_div)
qed

lemma opcodeArray_value [simp]: "opvalue (opcodeArray v) = v"
  by (simp add: opcodeArray_def)

lemma opcodeArray_length: 
  "oplength (opcodeArray v) = 1 \<or> 1 < oplength (opcodeArray v) \<or> oplength (opcodeArray v) \<in> {-1, -2, -4}"
  by (auto simp add: opcodeArray_def opcode_values word_le_def)


lemma bytes_nodata: "oplength op = 1 \<Longrightarrow> bytes \<lparr>opcode = op, data = []\<rparr> = Inr [opvalue op]"
  by (simp add: bytes_def)

lemma bytes_direct:
  "1 < oplength op \<Longrightarrow> int (length d) = oplength op - 1 \<Longrightarrow>
   bytes \<lparr>opcode = op, data = d\<rparr> = Inr (opvalue op # d)"
  by (simp add: bytes_def Let_def)

lemma bytes_pushdata1:
  assumes "oplength op = -1" "length pre = 1" "int (length d) = leUint pre"
  shows "bytes \<lparr>opcode = op, data = d\<rparr> = Inr (opvalue op # pre @ d)"
proof -
  from assms(2) obtain b where pre: "pre = [b]" by (cases pre) simp_all
  with assms show ?thesis
    by (simp add: bytes_def Let_def leUint_def)
qed

lemma le_split:
  fixes l :: int and b :: byte
  assumes "l = uint b + 256 * r"
  shows "word_of_int (l AND 0xff) = b" and "drop_bit 8 l = r"
  using assms by (simp_all only: byte_and_ff byte_of_le drop8_le)

lemma bytes_pushdata2:
  assumes "oplength op = -2" "length pre = 2" "int (length d) = leUint pre"
  shows "bytes \<lparr>opcode = op, data = d\<rparr> = Inr (opvalue op # pre @ d)"
proof -
  from assms(2) obtain b0 b1 where pre: "pre = [b0, b1]"
    by (auto simp: length_Suc_conv numeral_eq_Suc)
  define l where "l = int (length d)"
  from assms(3) have l: "l = uint b0 + 256 * uint b1"
    by (simp add: pre leUint_def l_def)
  have 1: "uint b1 = uint b1 + 256 * 0" by simp
  have w: "word_of_int (l AND 0xff) = b0" "word_of_int (drop_bit 8 l AND 0xff) = b1"
    using le_split [OF l] le_split(1) [OF 1] by simp_all
  have le: "leUint [b0, b1] = l" by (simp add: l leUint_def)
  have "(let retbytes = [opvalue op] @ [word_of_int (l AND 0xff), word_of_int (drop_bit 8 l AND 0xff)];
            nbytes = leUint (tl retbytes) + int (length retbytes);
            retbytes = retbytes @ d
        in if int (length retbytes) \<noteq> nbytes then Inl ErrInternal else Inr retbytes)
        = Inr (opvalue op # pre @ d)"
    unfolding w by (simp add: le pre l_def)
  then show ?thesis
    unfolding bytes_def l_def by (simp add: assms(1) Let_def)
qed

lemma bytes_pushdata4:
  assumes "oplength op = -4" "length pre = 4" "int (length d) = leUint pre"
  shows "bytes \<lparr>opcode = op, data = d\<rparr> = Inr (opvalue op # pre @ d)"
proof -
  from assms(2) obtain b0 b1 b2 b3 where pre: "pre = [b0, b1, b2, b3]"
    by (auto simp: length_Suc_conv numeral_eq_Suc)
  define l where "l = int (length d)"
  define r2 where "r2 = uint b2 + 256 * uint b3"
  define r1 where "r1 = uint b1 + 256 * r2"
  from assms(3) have l: "l = uint b0 + 256 * r1"
    by (simp add: pre leUint_def l_def r1_def r2_def)
  have 3: "uint b3 = uint b3 + 256 * 0" by simp
  have d8: "drop_bit 8 l = r1" by (rule le_split(2) [OF l])
  have d16: "drop_bit 16 l = r2"
    using drop_bit_drop_bit [of 8 8 l] le_split(2) [OF r1_def] by (simp add: d8)
  have d24: "drop_bit 24 l = uint b3"
    using drop_bit_drop_bit [of 8 16 l] le_split(2) [OF r2_def] by (simp add: d16)
  have w: "word_of_int (l AND 0xff) = b0" "word_of_int (drop_bit 8 l AND 0xff) = b1"
    "word_of_int (drop_bit 16 l AND 0xff) = b2" "word_of_int (drop_bit 24 l AND 0xff) = b3"
    unfolding d8 d16 d24
    using le_split(1) [OF l] le_split(1) [OF r1_def] le_split(1) [OF r2_def] le_split(1) [OF 3]
    by simp_all
  have le: "leUint [b0, b1, b2, b3] = l" by (simp add: l r1_def r2_def leUint_def)
  have "(let retbytes = [opvalue op] @ [word_of_int (l AND 0xff), word_of_int (drop_bit 8 l AND 0xff),
                   word_of_int (drop_bit 16 l AND 0xff), word_of_int (drop_bit 24 l AND 0xff)];
            nbytes = leUint (tl retbytes) + int (length retbytes);
            retbytes = retbytes @ d
        in if int (length retbytes) \<noteq> nbytes then Inl ErrInternal else Inr retbytes)
        = Inr (opvalue op # pre @ d)"
    unfolding w by (simp add: le pre l_def)
  then show ?thesis
    unfolding bytes_def l_def by (simp add: assms(1) Let_def)
qed

lemma bytes_pushdata:
  assumes "oplength op \<in> {-1, -2, -4}" "int (length pre) = - oplength op"
    "int (length d) = leUint pre"
  shows "bytes \<lparr>opcode = op, data = d\<rparr> = Inr (opvalue op # pre @ d)"
  using assms bytes_pushdata1 [of op pre d] bytes_pushdata2 [of op pre d]
    bytes_pushdata4 [of op pre d]
  by auto

lemma leUint_nonneg: "0 \<le> leUint bs"
  unfolding leUint_def by (induction bs) simp_all

text \<open>
  C9. Decoding a well-formed script into parsed opcodes and serialising each of them with
  \<open>bytes\<close>, in order, gives back the script byte for byte (opcode byte, little-endian
  length prefix for PUSHDATA1/2/4, payload).
\<close>

theorem parse_unparse_roundtrip: "parseScript script = Inr pops \<Longrightarrow> unparseScript pops = Inr script"
proof (induction script arbitrary: pops rule: parseScript.induct)
  case 1
  then show ?case by simp
next
  case (2 instr rest)
  let ?op = "opcodeArray instr"
  from opcodeArray_length [of instr]
  consider (one) "oplength ?op = 1" | (direct) "1 < oplength ?op"
    | (pushdata) "oplength ?op \<in> {-1, -2, -4}"
    by auto
  then show ?case
  proof cases
    case one
    with "2.prems" obtain ps where ps: "parseScript rest = Inr ps"
      and pops: "pops = \<lparr>opcode = ?op, data = []\<rparr> # ps"
      by (auto simp: Let_def split: sum.splits)
    from "2.IH"(1) [OF refl refl one ps] have "unparseScript ps = Inr rest" .
    then show ?thesis by (simp add: pops bytes_nodata [OF one])
  next
    case direct
    let ?n = "nat (oplength ?op - 1)"
    from direct "2.prems" obtain ps where len: "\<not> int (length rest) < oplength ?op - 1"
      and ps: "parseScript (drop ?n rest) = Inr ps"
      and pops: "pops = \<lparr>opcode = ?op, data = take ?n rest\<rparr> # ps"
      by (auto simp: Let_def split: sum.splits if_splits)
    from direct have n1: "oplength ?op \<noteq> 1" by simp
    from "2.IH"(2) [OF refl refl n1 direct len ps] have u: "unparseScript ps = Inr (drop ?n rest)" .
    from len direct have "int (length (take ?n rest)) = oplength ?op - 1" by simp
    from bytes_direct [OF direct this] u show ?thesis by (simp add: pops)
  next
    case pushdata
    let ?k = "nat (- oplength ?op)"
    let ?l = "leUint (take ?k rest)"
    let ?body = "drop ?k rest"
    from pushdata have n1: "oplength ?op \<noteq> 1" and n2: "\<not> 1 < oplength ?op" by auto
    from n1 n2 "2.prems" obtain ps where len: "\<not> int (length rest) < - oplength ?op"
      and fits: "\<not> ?l > int (length ?body)"
      and ps: "parseScript (drop (nat ?l) ?body) = Inr ps"
      and pops: "pops = \<lparr>opcode = ?op, data = take (nat ?l) ?body\<rparr> # ps"
      by (auto simp: Let_def split: sum.splits if_splits)
    from "2.IH"(3) [OF refl refl n1 n2 len refl refl fits ps]
    have u: "unparseScript ps = Inr (drop (nat ?l) ?body)" .
    from len pushdata have lp: "int (length (take ?k rest)) = - oplength ?op" by auto
    from fits leUint_nonneg [of "take ?k rest"]
    have ld: "int (length (take (nat ?l) ?body)) = ?l" by simp
    have "take ?k rest @ take (nat ?l) ?body @ drop (nat ?l) ?body = rest"
      by (simp only: append_take_drop_id)
    with bytes_pushdata [OF pushdata lp ld] u show ?thesis
      by (simp add: pops del: drop_drop)
  qed
qed

theorem parse_unparse_roundtrip_witness: "parseScript [0x02, 0xaa, 0xbb, 0x4c, 0x01, 0x07, 0x76, 0x4d, 0x01, 0x00, 0x09, 0x4e, 2,0,0,0,1,2] =
  Inr [\<lparr>opcode = \<lparr>opvalue = 2, oplength = 3\<rparr>, data = [170, 187]\<rparr>,
      \<lparr>opcode = \<lparr>opvalue = 76, oplength = - 1\<rparr>, data = [7]\<rparr>,
      \<lparr>opcode = \<lparr>opvalue = 118, oplength = 1\<rparr>, data = []\<rparr>,
      \<lparr>opcode = \<lparr>opvalue = 77, oplength = - 2\<rparr>, data = [9]\<rparr>,
      \<lparr>opcode = \<lparr>opvalue = 78, oplength = - 4\<rparr>, data = [1, 2]\<rparr>] \<and>
  unparseScript [\<lparr>opcode = \<lparr>opvalue = 2, oplength = 3\<rparr>, data = [170, 187]\<rparr>,
      \<lparr>opcode = \<lparr>opvalue = 76, oplength = - 1\<rparr>, data = [7]\<rparr>,
      \<lparr>opcode = \<lparr>opvalue = 118, oplength = 1\<rparr>, data = []\<rparr>,
      \<lparr>opcode = \<lparr>opvalue = 77, oplength = - 2\<rparr>, data = [9]\<rparr>,
      \<lparr>opcode = \<lparr>opvalue = 78, oplength = - 4\<rparr>, data = [1, 2]\<rparr>] = Inr [0x02, 0xaa, 0xbb, 0x4c, 0x01, 0x07, 0x76, 0x4d, 0x01, 0x00, 0x09, 0x4e, 2,0,0,0,1,2]"
proof -
  have p: "parseScript [0x02, 0xaa, 0xbb, 0x4c, 0x01, 0x07, 0x76, 0x4d, 0x01, 0x00, 0x09, 0x4e, 2,0,0,0,1,2] =
  Inr [\<lparr>opcode = \<lparr>opvalue = 2, oplength = 3\<rparr>, data = [170, 187]\<rparr>,
      \<lparr>opcode = \<lparr>opvalue = 76, oplength = - 1\<rparr>, data = [7]\<rparr>,
      \<lparr>opcode = \<lparr>opvalue = 118, oplength = 1\<rparr>, data = []\<rparr>,
      \<lparr>opcode = \<lparr>opvalue = 77, oplength = - 2\<rparr>, data = [9]\<rparr>,
      \<lparr>opcode = \<lparr>opvalue = 78, oplength = - 4\<rparr>, data = [1, 2]\<rparr>]"
    by (simp add: opcodeArray_def opcode_values leUint_def)
  from parse_unparse_roundtrip [OF p] p show ?thesis by simp
qed

section \<open>The engine state\<close>

text \<open>
  Modelled from the spec: the engine (engine.go), its stacks (stack.go), the script
  numbers (scriptnum.go) and the transaction type (package wire) are not among the
  sources; opcode.go only calls them. What follows is their interface as sections 3, 4.1,
  4.2 and 6 of the specification describe it.

  The policy flags that opcode.go tests.
\<close>

datatype ScriptFlags =
    ScriptDiscourageUpgradableNops
  | ScriptVerifyCheckLockTimeVerify
  | ScriptVerifyCheckSequenceVerify
  | ScriptVerifyDERSignatures
  | ScriptVerifyMinimalData
  | ScriptVerifyMinimalIf
  | ScriptVerifyNullFail
  | ScriptStrictMultiSig
  | ScriptVerifyStrictEncoding

text \<open>
  Modelled from the spec: the fields of the transaction that the handlers read: the
  version, the sequence number of each input, and the locktime (both unsigned 32-bit).
\<close>

record TxIn =
  Sequence :: "32 word"

record MsgTx =
  Version :: int
  TxIn :: "TxIn list"
  LockTime :: "32 word"

text \<open>
  Modelled from the spec: the execution context (section 3). \<open>dstack\<close> is the data stack
  with its top first; \<open>condStack\<close> is the Go slice \<open>vm.condStack\<close>, innermost marker last;
  \<open>witnessV0\<close> is the answer of \<open>vm.isWitnessVersionActive(0)\<close>; \<open>script\<close> and
  \<open>lastCodeSep\<close> give the subscript used in signature hashing; \<open>sigCache\<close> is the
  optional verification cache, keyed by (sighash, signature, public key). The types of
  parsed signatures and public keys belong to the elliptic-curve package and are
  parameters.
\<close>

record ('s, 'k) Engine =
  flags :: "ScriptFlags set"
  dstack :: "byte list list"
  verifyMinimalData :: bool
  condStack :: "int list"
  numOps :: int
  tx :: MsgTx
  txIdx :: int
  witnessV0 :: bool
  script :: "parsedOpcode list"
  lastCodeSep :: nat
  sigCache :: "(byte list \<times> 's \<times> 'k) set option"

text \<open>
\<open>OpCondFalse\<close>, \<open>OpCondTrue\<close>, \<open>OpCondSkip\<close>: the constants of opcode.go.
\<close>

definition OpCondFalse :: int where "OpCondFalse = 0"

definition OpCondTrue :: int where "OpCondTrue = 1"

definition OpCondSkip :: int where "OpCondSkip = 2"

text \<open>
  Modelled from the spec: \<open>vm.hasFlag\<close> and \<open>vm.isWitnessVersionActive\<close> (engine.go).
\<close>

definition hasFlag :: "('s, 'k) Engine \<Rightarrow> ScriptFlags \<Rightarrow> bool" where
  "hasFlag vm flag = (flag \<in> flags vm)"

definition isWitnessVersionActive :: "('s, 'k) Engine \<Rightarrow> nat \<Rightarrow> bool" where
  "isWitnessVersionActive vm version = (version = 0 \<and> witnessV0 vm)"

text \<open>
  Modelled from the spec: \<open>vm.isBranchExecuting\<close> (engine.go). Section 4.4: the current
  branch is executing when the condition stack is empty, or its top marker is True and no
  ancestor marker is Skip or False.
\<close>

definition isBranchExecuting :: "('s, 'k) Engine \<Rightarrow> bool" where
  "isBranchExecuting vm = list_all (\<lambda>c. c = OpCondTrue) (condStack vm)"

text \<open>
  Modelled from the spec: the boolean reading of a stack item (section 3): the empty item
  and zero are false, negative zero included; everything else is true. \<open>fromBool\<close> is the
  item that \<open>PushBool\<close> writes.
\<close>

fun asBool :: "byte list \<Rightarrow> bool" where
  "asBool [] = False"
| "asBool [b] = (b \<noteq> 0 \<and> b \<noteq> 0x80)"
| "asBool (b # bs) = (b \<noteq> 0 \<or> asBool bs)"

definition fromBool :: "bool \<Rightarrow> byte list" where
  "fromBool v = (if v then [1] else [])"

text \<open>
  Modelled from the spec: the stack operations of stack.go that opcode.go calls (section
  4.2). An operation that needs more items than the stack holds fails with the
  stack-underflow condition. The pushes of opcode.go return no error. An error ends the
  evaluation, so a failing operation returns the error alone.
\<close>

definition PushByteArray :: "byte list \<Rightarrow> ('s, 'k) Engine \<Rightarrow> ('s, 'k) Engine" where
  "PushByteArray so vm = vm\<lparr>dstack := so # dstack vm\<rparr>"

definition PushBool :: "bool \<Rightarrow> ('s, 'k) Engine \<Rightarrow> ('s, 'k) Engine" where
  "PushBool v vm = PushByteArray (fromBool v) vm"

definition PopByteArray :: "('s, 'k) Engine \<Rightarrow> ErrorCode + (byte list \<times> ('s, 'k) Engine)" where
  "PopByteArray vm =
     (case dstack vm of
        [] \<Rightarrow> Inl ErrStackUnderflow
      | so # rest \<Rightarrow> Inr (so, vm\<lparr>dstack := rest\<rparr>))"

definition PeekByteArray :: "('s, 'k) Engine \<Rightarrow> nat \<Rightarrow> ErrorCode + byte list" where
  "PeekByteArray vm idx =
     (if idx < length (dstack vm) then Inr (dstack vm ! idx) else Inl ErrStackUnderflow)"

definition PopBool :: "('s, 'k) Engine \<Rightarrow> ErrorCode + (bool \<times> ('s, 'k) Engine)" where
  "PopBool vm =
     (case PopByteArray vm of
        Inl e \<Rightarrow> Inl e
      | Inr (so, vm') \<Rightarrow> Inr (asBool so, vm'))"

text \<open>
  Modelled from the spec: the script number decoder \<open>makeScriptNum\<close> (scriptnum.go,
  section 4.1): little-endian magnitude, the high bit of the last byte is the sign;
  an encoding longer than the caller's limit is rejected, and so is a non-minimal one
  when minimal data is enforced. \<open>PopInt\<close> decodes with the 4-byte limit of the ordinary
  opcodes; \<open>Int32\<close> is the saturating conversion \<open>scriptNum.Int32\<close>.
\<close>

definition checkMinimalDataEncoding :: "byte list \<Rightarrow> ErrorCode + unit" where
  "checkMinimalDataEncoding v =
     (if v = [] then Inr ()
      else if last v AND 0x7f = 0 \<and> (length v = 1 \<or> last (butlast v) AND 0x80 = 0)
        then Inl ErrMinimalData
      else Inr ())"

definition makeScriptNum :: "byte list \<Rightarrow> bool \<Rightarrow> nat \<Rightarrow> ErrorCode + int" where
  "makeScriptNum v requireMinimal scriptNumLen =
     (if length v > scriptNumLen then Inl ErrNumberTooBig
      else if requireMinimal \<and> checkMinimalDataEncoding v \<noteq> Inr () then Inl ErrMinimalData
      else if v = [] then Inr 0
      else if last v AND 0x80 \<noteq> 0
        then Inr (- leUint (butlast v @ [last v AND 0x7f]))
      else Inr (leUint v))"

definition PopInt :: "('s, 'k) Engine \<Rightarrow> ErrorCode + (int \<times> ('s, 'k) Engine)" where
  "PopInt vm =
     (case PopByteArray vm of
        Inl e \<Rightarrow> Inl e
      | Inr (so, vm') \<Rightarrow>
          (case makeScriptNum so (verifyMinimalData vm) 4 of
             Inl e \<Rightarrow> Inl e
           | Inr n \<Rightarrow> Inr (n, vm')))"

definition Int32 :: "int \<Rightarrow> int" where
  "Int32 n = (if n > 2147483647 then 2147483647 else if n < - 2147483648 then - 2147483648 else n)"

text \<open>
  The constants that opcode.go uses and other files declare (\<open>LockTimeThreshold\<close>,
  \<open>wire.MaxTxInSequenceNum\<close>, \<open>MaxPubKeysPerMultiSig\<close>, \<open>MaxOpsPerScript\<close>) are
  parameters of the handlers that read them.
\<close>

record Consts =
  LockTimeThreshold :: int
  MaxTxInSequenceNum :: "32 word"
  MaxPubKeysPerMultiSig :: int
  MaxOpsPerScript :: int

text \<open>
  An engine with empty stacks and no flag, one transaction input, and the constants with
  their usual values, for the examples.
\<close>

definition emptyEngine :: "(byte list, byte list) Engine" where
  "emptyEngine =
     \<lparr>flags = {}, dstack = [], verifyMinimalData = False, condStack = [], numOps = 0,
      tx = \<lparr>Version = 1, TxIn = [\<lparr>Sequence = 0\<rparr>], LockTime = 0\<rparr>, txIdx = 0,
      witnessV0 = False, script = [], lastCodeSep = 0, sigCache = None\<rparr>"

definition consts0 :: Consts where
  "consts0 = \<lparr>LockTimeThreshold = 500000000, MaxTxInSequenceNum = 0xffffffff,
     MaxPubKeysPerMultiSig = 20, MaxOpsPerScript = 201\<rparr>"

section \<open>Conditionals\<close>

text \<open>
\<open>popIfBool\<close>, \<open>opcodeIf\<close>, \<open>opcodeNotIf\<close>, \<open>opcodeElse\<close>, \<open>opcodeEndif\<close> of opcode.go.
  The \<open>switch\<close> of \<open>opcodeElse\<close> leaves any value other than True and False as it is.
\<close>

definition popIfBool :: "('s, 'k) Engine \<Rightarrow> ErrorCode + (bool \<times> ('s, 'k) Engine)" where
  "popIfBool vm =
     (if \<not> isWitnessVersionActive vm 0 \<or> \<not> hasFlag vm ScriptVerifyMinimalIf then PopBool vm
      else
        (case PopByteArray vm of
           Inl e \<Rightarrow> Inl e
         | Inr (so, vm') \<Rightarrow>
             if length so > 1 then Inl ErrMinimalIf
             else if length so = 1 \<and> so ! 0 \<noteq> 0x01 then Inl ErrMinimalIf
             else Inr (asBool so, vm')))"

definition opcodeIf :: "parsedOpcode \<Rightarrow> ('s, 'k) Engine \<Rightarrow> ErrorCode + ('s, 'k) Engine" where
  "opcodeIf op vm =
     (if isBranchExecuting vm then
        (case popIfBool vm of
           Inl e \<Rightarrow> Inl e
         | Inr (ok, vm') \<Rightarrow>
             Inr (vm'\<lparr>condStack := condStack vm' @ [if ok then OpCondTrue else OpCondFalse]\<rparr>))
      else Inr (vm\<lparr>condStack := condStack vm @ [OpCondSkip]\<rparr>))"

definition opcodeNotIf :: "parsedOpcode \<Rightarrow> ('s, 'k) Engine \<Rightarrow> ErrorCode + ('s, 'k) Engine" where
  "opcodeNotIf op vm =
     (if isBranchExecuting vm then
        (case popIfBool vm of
           Inl e \<Rightarrow> Inl e
         | Inr (ok, vm') \<Rightarrow>
             Inr (vm'\<lparr>condStack := condStack vm' @ [if \<not> ok then OpCondTrue else OpCondFalse]\<rparr>))
      else Inr (vm\<lparr>condStack := condStack vm @ [OpCondSkip]\<rparr>))"

definition opcodeElse :: "parsedOpcode \<Rightarrow> ('s, 'k) Engine \<Rightarrow> ErrorCode + ('s, 'k) Engine" where
  "opcodeElse op vm =
     (if length (condStack vm) = 0 then Inl ErrUnbalancedConditional
      else
        let conditionalIdx = length (condStack vm) - 1;
            c = condStack vm ! conditionalIdx in
        if c = OpCondTrue then Inr (vm\<lparr>condStack := (condStack vm)[conditionalIdx := OpCondFalse]\<rparr>)
        else if c = OpCondFalse then Inr (vm\<lparr>condStack := (condStack vm)[conditionalIdx := OpCondTrue]\<rparr>)
        else Inr vm)"

definition opcodeEndif :: "parsedOpcode \<Rightarrow> ('s, 'k) Engine \<Rightarrow> ErrorCode + ('s, 'k) Engine" where
  "opcodeEndif op vm =
     (if length (condStack vm) = 0 then Inl ErrUnbalancedConditional
      else Inr (vm\<lparr>condStack := take (length (condStack vm) - 1) (condStack vm)\<rparr>))"

text \<open>
  The effect of IF and NOTIF on the condition stack: either the pop of the condition
  fails (only possible on an executing branch) and the handler returns that error, or one
  marker is appended: Skip off-branch, otherwise True or False from the popped boolean
  (\<open>sense\<close> is the identity for IF and negation for NOTIF).
\<close>

definition condPushed :: "('s, 'k) Engine \<Rightarrow> (bool \<Rightarrow> bool) \<Rightarrow> ErrorCode + ('s, 'k) Engine \<Rightarrow> bool" where
  "condPushed vm sense r =
     (case r of
        Inl e \<Rightarrow> isBranchExecuting vm \<and> popIfBool vm = Inl e
      | Inr vm' \<Rightarrow>
          length (condStack vm') = length (condStack vm) + 1 \<and>
          butlast (condStack vm') = condStack vm \<and>
          (if isBranchExecuting vm
           then (\<exists>ok vm1. popIfBool vm = Inr (ok, vm1) \<and>
                   last (condStack vm') = (if sense ok then OpCondTrue else OpCondFalse))
           else last (condStack vm') = OpCondSkip))"

subsection \<open>Properties of the conditionals\<close>

lemma popIfBool_condStack:
  "popIfBool vm = Inr (ok, vm') \<Longrightarrow> condStack vm' = condStack vm"
  by (auto simp: popIfBool_def PopBool_def PopByteArray_def split: if_splits list.splits sum.splits)

lemma if_ok: "condPushed vm (\<lambda>ok. ok) (opcodeIf op vm)"
  by (auto simp: condPushed_def opcodeIf_def popIfBool_condStack split: sum.splits)

lemma notif_ok: "condPushed vm (\<lambda>ok. \<not> ok) (opcodeNotIf op vm)"
  by (auto simp: condPushed_def opcodeNotIf_def popIfBool_condStack split: sum.splits)

lemma endif_ok:
  "opcodeEndif op vm =
     (if condStack vm = [] then Inl ErrUnbalancedConditional
      else Inr (vm\<lparr>condStack := butlast (condStack vm)\<rparr>))"
  by (simp add: opcodeEndif_def butlast_conv_take)

lemma else_ok:
  "opcodeElse op vm =
     (if condStack vm = [] then Inl ErrUnbalancedConditional
      else Inr (vm\<lparr>condStack := butlast (condStack vm) @
              [if last (condStack vm) = OpCondTrue then OpCondFalse
               else if last (condStack vm) = OpCondFalse then OpCondTrue
               else last (condStack vm)]\<rparr>))"
proof (cases "condStack vm" rule: rev_cases)
  case Nil
  then show ?thesis by (simp add: opcodeElse_def)
next
  case (snoc cs c)
  then show ?thesis by (simp add: opcodeElse_def Let_def)
qed

text \<open>
  C6, as stated, fails: on an executing branch with an empty data stack, IF and NOTIF
  return the stack-underflow error of the pop and append no marker, so they do not
  lengthen the condition stack in every state.
\<close>

theorem opcodeIf_underflow_counterexample:
  "isBranchExecuting emptyEngine \<and>
   opcodeIf \<lparr>opcode = opcodeArray OpIf, data = []\<rparr> emptyEngine = Inl ErrStackUnderflow \<and>
   opcodeNotIf \<lparr>opcode = opcodeArray OpIfNot, data = []\<rparr> emptyEngine = Inl ErrStackUnderflow"
  by (simp add: opcodeIf_def opcodeNotIf_def emptyEngine_def isBranchExecuting_def popIfBool_def
      PopBool_def PopByteArray_def isWitnessVersionActive_def)

text \<open>
  C6, amended. IF and NOTIF either return the error of popping their condition (stack
  underflow or minimal-if, only on an executing branch) or lengthen the condition stack by
  exactly one marker: Skip when the surrounding branch is not executing, otherwise True
  or False from the popped boolean. ENDIF fails with unbalanced-conditional on an empty
  condition stack and otherwise removes the last marker. ELSE fails with
  unbalanced-conditional on an empty condition stack and otherwise keeps the length,
  flipping the last marker between True and False and leaving Skip as it is.
\<close>

theorem conditional_stack_effect:
  "condPushed vm (\<lambda>ok. ok) (opcodeIf op vm) \<and>
   condPushed vm (\<lambda>ok. \<not> ok) (opcodeNotIf op vm) \<and>
   opcodeEndif op vm =
     (if condStack vm = [] then Inl ErrUnbalancedConditional
      else Inr (vm\<lparr>condStack := butlast (condStack vm)\<rparr>)) \<and>
   opcodeElse op vm =
     (if condStack vm = [] then Inl ErrUnbalancedConditional
      else Inr (vm\<lparr>condStack := butlast (condStack vm) @
              [if last (condStack vm) = OpCondTrue then OpCondFalse
               else if last (condStack vm) = OpCondFalse then OpCondTrue
               else last (condStack vm)]\<rparr>))"
  using if_ok [of vm op] notif_ok [of vm op] endif_ok [of op vm] else_ok [of op vm] by simp

theorem conditional_stack_effect_witness:
  "condPushed (emptyEngine\<lparr>dstack := [[1]]\<rparr>) (\<lambda>ok. ok)
     (Inr (emptyEngine\<lparr>condStack := [OpCondTrue]\<rparr>)) \<and>
   condPushed (emptyEngine\<lparr>condStack := [OpCondFalse]\<rparr>) (\<lambda>ok. \<not> ok)
     (Inr (emptyEngine\<lparr>condStack := [OpCondFalse, OpCondSkip]\<rparr>)) \<and>
   opcodeElse \<lparr>opcode = opcodeArray OpElse, data = []\<rparr>
     (emptyEngine\<lparr>condStack := [OpCondTrue, OpCondFalse]\<rparr>)
     = Inr (emptyEngine\<lparr>condStack := [OpCondTrue, OpCondTrue]\<rparr>) \<and>
   opcodeEndif \<lparr>opcode = opcodeArray OpEndIf, data = []\<rparr>
     (emptyEngine\<lparr>condStack := [OpCondTrue]\<rparr>)
     = Inr (emptyEngine\<lparr>condStack := []\<rparr>)"
proof -
  let ?if = "\<lparr>opcode = opcodeArray OpIf, data = []\<rparr>"
  let ?notif = "\<lparr>opcode = opcodeArray OpIfNot, data = []\<rparr>"
  let ?else = "\<lparr>opcode = opcodeArray OpElse, data = []\<rparr>"
  let ?endif = "\<lparr>opcode = opcodeArray OpEndIf, data = []\<rparr>"
  have i: "opcodeIf ?if (emptyEngine\<lparr>dstack := [[1]]\<rparr>)
     = Inr (emptyEngine\<lparr>condStack := [OpCondTrue]\<rparr>)"
    by (simp add: opcodeIf_def emptyEngine_def isBranchExecuting_def popIfBool_def
      PopBool_def PopByteArray_def isWitnessVersionActive_def)
  have n: "opcodeNotIf ?notif (emptyEngine\<lparr>condStack := [OpCondFalse]\<rparr>)
     = Inr (emptyEngine\<lparr>condStack := [OpCondFalse, OpCondSkip]\<rparr>)"
    by (simp add: opcodeNotIf_def emptyEngine_def isBranchExecuting_def OpCondFalse_def OpCondTrue_def)
  have 1: "condPushed (emptyEngine\<lparr>dstack := [[1]]\<rparr>) (\<lambda>ok. ok)
     (Inr (emptyEngine\<lparr>condStack := [OpCondTrue]\<rparr>))"
    using conditional_stack_effect [of "emptyEngine\<lparr>dstack := [[1]]\<rparr>" ?if] by (simp only: i)
  have 2: "condPushed (emptyEngine\<lparr>condStack := [OpCondFalse]\<rparr>) (\<lambda>ok. \<not> ok)
     (Inr (emptyEngine\<lparr>condStack := [OpCondFalse, OpCondSkip]\<rparr>))"
    using conditional_stack_effect [of "emptyEngine\<lparr>condStack := [OpCondFalse]\<rparr>" ?notif] by (simp only: n)
  have 3: "opcodeElse ?else (emptyEngine\<lparr>condStack := [OpCondTrue, OpCondFalse]\<rparr>)
     = Inr (emptyEngine\<lparr>condStack := [OpCondTrue, OpCondTrue]\<rparr>)"
    using conditional_stack_effect [of "emptyEngine\<lparr>condStack := [OpCondTrue, OpCondFalse]\<rparr>" ?else]
    by (simp add: OpCondFalse_def OpCondTrue_def)
  have 4: "opcodeEndif ?endif (emptyEngine\<lparr>condStack := [OpCondTrue]\<rparr>)
     = Inr (emptyEngine\<lparr>condStack := []\<rparr>)"
    using conditional_stack_effect [of "emptyEngine\<lparr>condStack := [OpCondTrue]\<rparr>" ?endif]
    by simp
  from 1 2 3 4 show ?thesis by blast
qed

section \<open>CHECKLOCKTIMEVERIFY\<close>

text \<open>
\<open>verifyLockTime\<close> and \<open>opcodeCheckLockTimeVerify\<close> of opcode.go. The conversions to
  \<open>int64\<close> cannot overflow (a 32-bit field and a number of at most 5 bytes), so the
  comparisons are on integers. \<open>vm.tx.TxIn[vm.txIdx]\<close> panics out of range.
\<close>

definition verifyLockTime :: "int \<Rightarrow> int \<Rightarrow> int \<Rightarrow> ErrorCode + unit" where
  "verifyLockTime txLockTime threshold lockTime =
     (if \<not> ((txLockTime < threshold \<and> lockTime < threshold) \<or>
              (txLockTime \<ge> threshold \<and> lockTime \<ge> threshold))
      then Inl ErrUnsatisfiedLockTime
      else if lockTime > txLockTime then Inl ErrUnsatisfiedLockTime
      else Inr ())"

definition opcodeCheckLockTimeVerify ::
  "Consts \<Rightarrow> parsedOpcode \<Rightarrow> ('s, 'k) Engine \<Rightarrow> ErrorCode + ('s, 'k) Engine" where
  "opcodeCheckLockTimeVerify K op vm =
     (if \<not> hasFlag vm ScriptVerifyCheckLockTimeVerify then
        (if hasFlag vm ScriptDiscourageUpgradableNops then Inl ErrDiscourageUpgradableNOPs
         else Inr vm)
      else
        (case PeekByteArray vm 0 of
           Inl e \<Rightarrow> Inl e
         | Inr so \<Rightarrow>
             (case makeScriptNum so (verifyMinimalData vm) 5 of
                Inl e \<Rightarrow> Inl e
              | Inr lockTime \<Rightarrow>
                  if lockTime < 0 then Inl ErrNegativeLockTime
                  else
                    (case verifyLockTime (uint (LockTime (tx vm))) (LockTimeThreshold K) lockTime of
                       Inl e \<Rightarrow> Inl e
                     | Inr _ \<Rightarrow>
                         if txIdx vm < 0 \<or> txIdx vm \<ge> int (length (TxIn (tx vm)))
                           then Inl RuntimePanic
                         else if Sequence (TxIn (tx vm) ! nat (txIdx vm)) = MaxTxInSequenceNum K
                           then Inl ErrUnsatisfiedLockTime
                         else Inr vm))))"

text \<open>
Two locktimes are of the same type when they lie on the same side of the threshold.
\<close>

definition sameLockTimeType :: "int \<Rightarrow> int \<Rightarrow> int \<Rightarrow> bool" where
  "sameLockTimeType threshold a b = ((a < threshold) = (b < threshold))"

definition cltvEngine ::
  "32 word \<Rightarrow> 32 word \<Rightarrow> byte list \<Rightarrow> (byte list, byte list) Engine" where
  "cltvEngine txLock sequ item =
     emptyEngine\<lparr>flags := {ScriptVerifyCheckLockTimeVerify}, dstack := [item],
       tx := \<lparr>Version = 1, TxIn = [\<lparr>Sequence = sequ\<rparr>], LockTime = txLock\<rparr>\<rparr>"

text \<open>
  C7. With its flag set, CHECKLOCKTIMEVERIFY reads the top item without popping it, as a
  script number of at most 5 bytes; it fails with negative-locktime when the number is
  negative, with unsatisfied-locktime when the number and the transaction's locktime are
  of different types or the number exceeds the transaction's locktime, and with
  unsatisfied-locktime when the input's sequence number is the final one; otherwise it
  succeeds and returns the state unchanged. The checks are made in this order.
\<close>

theorem checkLockTimeVerify_checks:
  "hasFlag vm ScriptVerifyCheckLockTimeVerify \<Longrightarrow> dstack vm = so # rest \<Longrightarrow>
   0 \<le> txIdx vm \<Longrightarrow> txIdx vm < int (length (TxIn (tx vm))) \<Longrightarrow>
   opcodeCheckLockTimeVerify K op vm =
     (case makeScriptNum so (verifyMinimalData vm) 5 of
        Inl e \<Rightarrow> Inl e
      | Inr lockTime \<Rightarrow>
          if lockTime < 0 then Inl ErrNegativeLockTime
          else if \<not> sameLockTimeType (LockTimeThreshold K) (uint (LockTime (tx vm))) lockTime
                  \<or> lockTime > uint (LockTime (tx vm))
            then Inl ErrUnsatisfiedLockTime
          else if Sequence (TxIn (tx vm) ! nat (txIdx vm)) = MaxTxInSequenceNum K
            then Inl ErrUnsatisfiedLockTime
          else Inr vm) \<and>
   (5 < length so \<longrightarrow> makeScriptNum so (verifyMinimalData vm) 5 = Inl ErrNumberTooBig)"
  by (auto simp: opcodeCheckLockTimeVerify_def PeekByteArray_def verifyLockTime_def
      sameLockTimeType_def makeScriptNum_def split: sum.splits)

theorem checkLockTimeVerify_checks_witness:
  "opcodeCheckLockTimeVerify consts0 \<lparr>opcode = opcodeArray OpCheckLockTimeVerify, data = []\<rparr>
     (cltvEngine 200 0 [100]) = Inr (cltvEngine 200 0 [100]) \<and>
   opcodeCheckLockTimeVerify consts0 \<lparr>opcode = opcodeArray OpCheckLockTimeVerify, data = []\<rparr>
     (cltvEngine 200 0xffffffff [100]) = Inl ErrUnsatisfiedLockTime \<and>
   opcodeCheckLockTimeVerify consts0 \<lparr>opcode = opcodeArray OpCheckLockTimeVerify, data = []\<rparr>
     (cltvEngine 50 0 [100]) = Inl ErrUnsatisfiedLockTime \<and>
   opcodeCheckLockTimeVerify consts0 \<lparr>opcode = opcodeArray OpCheckLockTimeVerify, data = []\<rparr>
     (cltvEngine 500000001 0 [100]) = Inl ErrUnsatisfiedLockTime \<and>
   opcodeCheckLockTimeVerify consts0 \<lparr>opcode = opcodeArray OpCheckLockTimeVerify, data = []\<rparr>
     (cltvEngine 200 0 [0x81]) = Inl ErrNegativeLockTime"
proof -
  have n: "makeScriptNum [100] False 5 = Inr 100"     "makeScriptNum [0x81] False 5 = Inr (- 1)"
    by (simp_all add: makeScriptNum_def leUint_def)
  show ?thesis
    using checkLockTimeVerify_checks [of "cltvEngine 200 0 [100]" "[100]" "[]" consts0]
      checkLockTimeVerify_checks [of "cltvEngine 200 0xffffffff [100]" "[100]" "[]" consts0]
      checkLockTimeVerify_checks [of "cltvEngine 50 0 [100]" "[100]" "[]" consts0]
      checkLockTimeVerify_checks [of "cltvEngine 500000001 0 [100]" "[100]" "[]" consts0]
      checkLockTimeVerify_checks [of "cltvEngine 200 0 [0x81]" "[0x81]" "[]" consts0]
    by (simp add: cltvEngine_def emptyEngine_def hasFlag_def consts0_def n sameLockTimeType_def)
qed

section \<open>Signature checking\<close>

text \<open>
  The collaborators of the signature opcodes that are not among the sources: the
  elliptic-curve package (\<open>ec.ParsePubKey\<close>, \<open>ec.ParseSignature\<close>,
  \<open>ec.ParseDERSignature\<close>, \<open>Signature.Verify\<close>), the encoding rules behind the engine's
  \<open>check...Encoding\<close> functions, \<open>removeOpcodeByData\<close> and the two signature-hash
  functions of script.go (the witness one takes the hash cache and the input amount with
  it and can fail). They are parameters.
\<close>

record ('s, 'k) Ext =
  ParsePubKey :: "byte list \<Rightarrow> 'k option"
  ParseSignature :: "byte list \<Rightarrow> 's option"
  ParseDERSignature :: "byte list \<Rightarrow> 's option"
  Verify :: "'s \<Rightarrow> byte list \<Rightarrow> 'k \<Rightarrow> bool"
  validHashType :: "byte \<Rightarrow> bool"
  validSignatureEncoding :: "byte list \<Rightarrow> bool"
  validPubKeyEncoding :: "byte list \<Rightarrow> bool"
  removeOpcodeByData :: "parsedOpcode list \<Rightarrow> byte list \<Rightarrow> parsedOpcode list"
  calcSignatureHash :: "parsedOpcode list \<Rightarrow> byte \<Rightarrow> MsgTx \<Rightarrow> int \<Rightarrow> byte list"
  calcWitnessSignatureHash :: "parsedOpcode list \<Rightarrow> byte \<Rightarrow> MsgTx \<Rightarrow> int \<Rightarrow> ErrorCode + byte list"

text \<open>
  Modelled from the spec: \<open>vm.subScript\<close> (engine.go): the current script from the most
  recent CODESEPARATOR onward.
\<close>

definition subScript :: "('s, 'k) Engine \<Rightarrow> parsedOpcode list" where
  "subScript vm = drop (lastCodeSep vm) (script vm)"

text \<open>
  Modelled from the spec: \<open>vm.checkHashTypeEncoding\<close>, \<open>vm.checkSignatureEncoding\<close> and
  \<open>vm.checkPubKeyEncoding\<close> (engine.go). Section 4.5: the encoding checks abort the
  evaluation with an error when they fail under the strict-mode flags (strict DER
  signatures, strict general encoding of section 6), and pass outside strict mode.
\<close>

definition strictEncoding :: "('s, 'k) Engine \<Rightarrow> bool" where
  "strictEncoding vm =
     (hasFlag vm ScriptVerifyStrictEncoding \<or> hasFlag vm ScriptVerifyDERSignatures)"

definition checkHashTypeEncoding ::
  "('s, 'k) Ext \<Rightarrow> ('s, 'k) Engine \<Rightarrow> byte \<Rightarrow> ErrorCode + unit" where
  "checkHashTypeEncoding X vm hashType =
     (if strictEncoding vm \<and> \<not> validHashType X hashType then Inl ErrInvalidSigHashType
      else Inr ())"

definition checkSignatureEncoding ::
  "('s, 'k) Ext \<Rightarrow> ('s, 'k) Engine \<Rightarrow> byte list \<Rightarrow> ErrorCode + unit" where
  "checkSignatureEncoding X vm sig =
     (if strictEncoding vm \<and> \<not> validSignatureEncoding X sig then Inl ErrSigEncoding
      else Inr ())"

definition checkPubKeyEncoding ::
  "('s, 'k) Ext \<Rightarrow> ('s, 'k) Engine \<Rightarrow> byte list \<Rightarrow> ErrorCode + unit" where
  "checkPubKeyEncoding X vm pubKey =
     (if strictEncoding vm \<and> \<not> validPubKeyEncoding X pubKey then Inl ErrPubKeyType
      else Inr ())"

text \<open>
  The pieces that \<open>opcodeCheckSig\<close> and \<open>opcodeCheckMultiSig\<close> share in opcode.go, written
  once: the signature hash (witness or legacy), the verification through the optional
  cache (a verified triple is added to it), the choice of the signature parser by the
  flags, and the script that CHECKSIG hashes.
\<close>

definition sigHash ::
  "('s, 'k) Ext \<Rightarrow> ('s, 'k) Engine \<Rightarrow> parsedOpcode list \<Rightarrow> byte \<Rightarrow> ErrorCode + byte list" where
  "sigHash X vm scr hashType =
     (if isWitnessVersionActive vm 0
      then calcWitnessSignatureHash X scr hashType (tx vm) (txIdx vm)
      else Inr (calcSignatureHash X scr hashType (tx vm) (txIdx vm)))"

definition verifySig ::
  "('s, 'k) Ext \<Rightarrow> ('s, 'k) Engine \<Rightarrow> byte list \<Rightarrow> 's \<Rightarrow> 'k \<Rightarrow> bool \<times> ('s, 'k) Engine" where
  "verifySig X vm hash signature pubKey =
     (case sigCache vm of
        Some cache \<Rightarrow>
          if (hash, signature, pubKey) \<in> cache then (True, vm)
          else if Verify X signature hash pubKey
            then (True, vm\<lparr>sigCache := Some (insert (hash, signature, pubKey) cache)\<rparr>)
          else (False, vm)
      | None \<Rightarrow> (Verify X signature hash pubKey, vm))"

definition parseSig :: "('s, 'k) Ext \<Rightarrow> ('s, 'k) Engine \<Rightarrow> byte list \<Rightarrow> 's option" where
  "parseSig X vm sig =
     (if hasFlag vm ScriptVerifyStrictEncoding \<or> hasFlag vm ScriptVerifyDERSignatures
      then ParseDERSignature X sig else ParseSignature X sig)"

definition checkSigScript ::
  "('s, 'k) Ext \<Rightarrow> ('s, 'k) Engine \<Rightarrow> byte list \<Rightarrow> parsedOpcode list" where
  "checkSigScript X vm fullSigBytes =
     (if isWitnessVersionActive vm 0 then subScript vm
      else removeOpcodeByData X (subScript vm) fullSigBytes)"

text \<open>
\<open>opcodeCheckSig\<close> of opcode.go.
\<close>

definition opcodeCheckSig ::
  "('s, 'k) Ext \<Rightarrow> parsedOpcode \<Rightarrow> ('s, 'k) Engine \<Rightarrow> ErrorCode + ('s, 'k) Engine" where
  "opcodeCheckSig X op vm =
     (case PopByteArray vm of
        Inl e \<Rightarrow> Inl e
      | Inr (pkBytes, vm) \<Rightarrow>
     (case PopByteArray vm of
        Inl e \<Rightarrow> Inl e
      | Inr (fullSigBytes, vm) \<Rightarrow>
     if length fullSigBytes < 1 then Inr (PushBool False vm)
     else
       let hashType = fullSigBytes ! (length fullSigBytes - 1);
           sigBytes = take (length fullSigBytes - 1) fullSigBytes in
     (case checkHashTypeEncoding X vm hashType of
        Inl e \<Rightarrow> Inl e
      | Inr _ \<Rightarrow>
     (case checkSignatureEncoding X vm sigBytes of
        Inl e \<Rightarrow> Inl e
      | Inr _ \<Rightarrow>
     (case checkPubKeyEncoding X vm pkBytes of
        Inl e \<Rightarrow> Inl e
      | Inr _ \<Rightarrow>
     (case sigHash X vm (checkSigScript X vm fullSigBytes) hashType of
        Inl e \<Rightarrow> Inl e
      | Inr hash \<Rightarrow>
     (case ParsePubKey X pkBytes of
        None \<Rightarrow> Inr (PushBool False vm)
      | Some pubKey \<Rightarrow>
     (case parseSig X vm sigBytes of
        None \<Rightarrow> Inr (PushBool False vm)
      | Some signature \<Rightarrow>
          let (valid, vm) = verifySig X vm hash signature pubKey in
          if \<not> valid \<and> hasFlag vm ScriptVerifyNullFail \<and> length sigBytes > 0
            then Inl ErrNullFail
          else Inr (PushBool valid vm)))))))))"

section \<open>CHECKMULTISIG\<close>

text \<open>
\<open>type parsedSigInfo struct { signature []byte; parsedSignature *ec.Signature; parsed bool }\<close>
\<close>

record 's parsedSigInfo =
  signature :: "byte list"
  parsedSignature :: "'s option"
  parsed :: bool

text \<open>
  The body of the loop of \<open>opcodeCheckMultiSig\<close> for the signature and the key it picked.
  Every \<open>continue\<close> is the result False; the updated \<open>parsedSigInfo\<close> is returned, since
  the source mutates it through its pointer.
\<close>

definition checkSigAgainstKey ::
  "('s, 'k) Ext \<Rightarrow> parsedOpcode list \<Rightarrow> ('s, 'k) Engine \<Rightarrow> 's parsedSigInfo \<Rightarrow> byte list \<Rightarrow>
     ErrorCode + (bool \<times> 's parsedSigInfo \<times> ('s, 'k) Engine)" where
  "checkSigAgainstKey X scr vm sigInfo pubKey =
     (let rawSig = signature sigInfo in
      if length rawSig = 0 then Inr (False, sigInfo, vm)
      else
        let hashType = rawSig ! (length rawSig - 1);
            sig = take (length rawSig - 1) rawSig in
        (case
           (if \<not> parsed sigInfo then
              (case checkHashTypeEncoding X vm hashType of
                 Inl e \<Rightarrow> Inl e
               | Inr _ \<Rightarrow>
              (case checkSignatureEncoding X vm sig of
                 Inl e \<Rightarrow> Inl e
               | Inr _ \<Rightarrow>
                 (case parseSig X vm sig of
                    None \<Rightarrow> Inr (None, sigInfo\<lparr>parsed := True\<rparr>)
                  | Some parsedSig \<Rightarrow>
                      Inr (Some parsedSig,
                           sigInfo\<lparr>parsed := True, parsedSignature := Some parsedSig\<rparr>))))
            else Inr (parsedSignature sigInfo, sigInfo)) of
           Inl e \<Rightarrow> Inl e
         | Inr (None, sigInfo) \<Rightarrow> Inr (False, sigInfo, vm)
         | Inr (Some parsedSig, sigInfo) \<Rightarrow>
        (case checkPubKeyEncoding X vm pubKey of
           Inl e \<Rightarrow> Inl e
         | Inr _ \<Rightarrow>
        (case ParsePubKey X pubKey of
           None \<Rightarrow> Inr (False, sigInfo, vm)
         | Some parsedPubKey \<Rightarrow>
        (case sigHash X vm scr hashType of
           Inl e \<Rightarrow> Inl e
         | Inr hash \<Rightarrow>
             let (valid, vm) = verifySig X vm hash parsedSig parsedPubKey in
             Inr (valid, sigInfo, vm))))))"

text \<open>
  The loop \<open>for numSignatures > 0\<close> with its four counters. An index out of range is a
  panic. The measure is \<open>numPubKeys\<close>, which every iteration that goes on decrements
  while it stays positive.
\<close>

function checkMultiSigLoop ::
  "('s, 'k) Ext \<Rightarrow> parsedOpcode list \<Rightarrow> byte list list \<Rightarrow>
   ('s, 'k) Engine \<times> 's parsedSigInfo list \<times> int \<times> int \<times> int \<times> int \<Rightarrow>
   ErrorCode + (bool \<times> 's parsedSigInfo list \<times> ('s, 'k) Engine)" where
  "checkMultiSigLoop X scr pubKeys (vm, signatures, numSignatures, numPubKeys, pubKeyIdx, signatureIdx) =
     (if numSignatures > 0 then
        let pubKeyIdx = pubKeyIdx + 1; numPubKeys = numPubKeys - 1 in
        if numSignatures > numPubKeys then Inr (False, signatures, vm)
        else if signatureIdx < 0 \<or> signatureIdx \<ge> int (length signatures) \<or>
                pubKeyIdx < 0 \<or> pubKeyIdx \<ge> int (length pubKeys) then Inl RuntimePanic
        else
          (case checkSigAgainstKey X scr vm (signatures ! nat signatureIdx)
                  (pubKeys ! nat pubKeyIdx) of
             Inl e \<Rightarrow> Inl e
           | Inr (valid, sigInfo, vm) \<Rightarrow>
               if valid then
                 checkMultiSigLoop X scr pubKeys
                   (vm, signatures[nat signatureIdx := sigInfo], numSignatures - 1,
                    numPubKeys, pubKeyIdx, signatureIdx + 1)
               else
                 checkMultiSigLoop X scr pubKeys
                   (vm, signatures[nat signatureIdx := sigInfo], numSignatures,
                    numPubKeys, pubKeyIdx, signatureIdx))
      else Inr (True, signatures, vm))"
  by pat_completeness auto
termination
  by (relation "measure (\<lambda>(X, scr, pubKeys, vm, signatures, numSignatures, numPubKeys, r). nat numPubKeys)")
    auto
declare checkMultiSigLoop.simps [simp del]

text \<open>
  The first half of \<open>opcodeCheckMultiSig\<close>: popping the key count, the keys, the signature
  count, the signatures and the dummy, with their checks.
\<close>

fun popByteArrays :: "nat \<Rightarrow> ('s, 'k) Engine \<Rightarrow> ErrorCode + (byte list list \<times> ('s, 'k) Engine)" where
  "popByteArrays 0 vm = Inr ([], vm)"
| "popByteArrays (Suc n) vm =
     (case PopByteArray vm of
        Inl e \<Rightarrow> Inl e
      | Inr (so, vm) \<Rightarrow>
          (case popByteArrays n vm of
             Inl e \<Rightarrow> Inl e
           | Inr (sos, vm) \<Rightarrow> Inr (so # sos, vm)))"

definition popMultiSigArgs ::
  "Consts \<Rightarrow> ('s, 'k) Engine \<Rightarrow>
     ErrorCode +
       (int \<times> byte list list \<times> int \<times> byte list list \<times> byte list \<times> ('s, 'k) Engine)" where
  "popMultiSigArgs K vm =
     (case PopInt vm of
        Inl e \<Rightarrow> Inl e
      | Inr (numKeys, vm) \<Rightarrow>
     let numPubKeys = Int32 numKeys in
     if numPubKeys < 0 then Inl ErrInvalidPubKeyCount
     else if numPubKeys > MaxPubKeysPerMultiSig K then Inl ErrInvalidPubKeyCount
     else
       let vm = vm\<lparr>numOps := numOps vm + numPubKeys\<rparr> in
       if numOps vm > MaxOpsPerScript K then Inl ErrTooManyOperations
       else
     (case popByteArrays (nat numPubKeys) vm of
        Inl e \<Rightarrow> Inl e
      | Inr (pubKeys, vm) \<Rightarrow>
     (case PopInt vm of
        Inl e \<Rightarrow> Inl e
      | Inr (numSigs, vm) \<Rightarrow>
     let numSignatures = Int32 numSigs in
     if numSignatures < 0 then Inl ErrInvalidSignatureCount
     else if numSignatures > numPubKeys then Inl ErrInvalidSignatureCount
     else
     (case popByteArrays (nat numSignatures) vm of
        Inl e \<Rightarrow> Inl e
      | Inr (rawSigs, vm) \<Rightarrow>
     (case PopByteArray vm of
        Inl e \<Rightarrow> Inl e
      | Inr (dummy, vm) \<Rightarrow>
     if hasFlag vm ScriptStrictMultiSig \<and> length dummy \<noteq> 0 then Inl ErrSigNullDummy
     else Inr (numPubKeys, pubKeys, numSignatures, rawSigs, dummy, vm))))))"

text \<open>
  The second half of \<open>opcodeCheckMultiSig\<close>: the script with the signatures removed
  (outside witness version 0), the loop, the null-fail check and the push of the result.
\<close>

definition newSigInfo :: "byte list \<Rightarrow> 's parsedSigInfo" where
  "newSigInfo s = \<lparr>signature = s, parsedSignature = None, parsed = False\<rparr>"

definition multiSigScript ::
  "('s, 'k) Ext \<Rightarrow> ('s, 'k) Engine \<Rightarrow> byte list list \<Rightarrow> parsedOpcode list" where
  "multiSigScript X vm rawSigs =
     (let scr = subScript vm in
      if \<not> isWitnessVersionActive vm 0
      then foldl (removeOpcodeByData X) scr rawSigs
      else scr)"

definition verifyMultiSig ::
  "('s, 'k) Ext \<Rightarrow> int \<Rightarrow> byte list list \<Rightarrow> int \<Rightarrow> byte list list \<Rightarrow> ('s, 'k) Engine \<Rightarrow>
     ErrorCode + ('s, 'k) Engine" where
  "verifyMultiSig X numPubKeys pubKeys numSignatures rawSigs vm =
     (let signatures = map newSigInfo rawSigs;
          scr = multiSigScript X vm (map signature signatures)
      in
      (case checkMultiSigLoop X scr pubKeys
              (vm, signatures, numSignatures, numPubKeys + 1, - 1, 0) of
         Inl e \<Rightarrow> Inl e
       | Inr (success, signatures, vm) \<Rightarrow>
           if \<not> success \<and> hasFlag vm ScriptVerifyNullFail \<and>
              (\<exists>sig \<in> set signatures. length (signature sig) > 0)
             then Inl ErrNullFail
           else Inr (PushBool success vm)))"

definition opcodeCheckMultiSig ::
  "Consts \<Rightarrow> ('s, 'k) Ext \<Rightarrow> parsedOpcode \<Rightarrow> ('s, 'k) Engine \<Rightarrow> ErrorCode + ('s, 'k) Engine" where
  "opcodeCheckMultiSig K X op vm =
     (case popMultiSigArgs K vm of
        Inl e \<Rightarrow> Inl e
      | Inr (numPubKeys, pubKeys, numSignatures, rawSigs, dummy, vm) \<Rightarrow>
          verifyMultiSig X numPubKeys pubKeys numSignatures rawSigs vm)"

subsection \<open>The ordered scan of the specification\<close>

text \<open>
  Section 4.5 in its own words: whether a signature matches a key (an empty signature
  never does; a signature or key that does not parse is skipped; under the strict flags a
  bad encoding aborts), and the two-pointer scan: a matched pair advances both pointers,
  a failed one the key pointer only, and the scan fails as soon as more signatures than
  keys remain. Nothing is memoised here.
\<close>

definition sigMatchesKey ::
  "('s, 'k) Ext \<Rightarrow> parsedOpcode list \<Rightarrow> ('s, 'k) Engine \<Rightarrow> byte list \<Rightarrow> byte list \<Rightarrow> ErrorCode + bool" where
  "sigMatchesKey X scr vm rawSig pubKey =
     (if rawSig = [] then Inr False
      else
        (case checkHashTypeEncoding X vm (last rawSig) of
           Inl e \<Rightarrow> Inl e
         | Inr _ \<Rightarrow>
        (case checkSignatureEncoding X vm (butlast rawSig) of
           Inl e \<Rightarrow> Inl e
         | Inr _ \<Rightarrow>
        (case parseSig X vm (butlast rawSig) of
           None \<Rightarrow> Inr False
         | Some s \<Rightarrow>
        (case checkPubKeyEncoding X vm pubKey of
           Inl e \<Rightarrow> Inl e
         | Inr _ \<Rightarrow>
        (case ParsePubKey X pubKey of
           None \<Rightarrow> Inr False
         | Some k \<Rightarrow>
        (case sigHash X vm scr (last rawSig) of
           Inl e \<Rightarrow> Inl e
         | Inr h \<Rightarrow> Inr (fst (verifySig X vm h s k)))))))))"

fun orderedScan ::
  "('a \<Rightarrow> 'b \<Rightarrow> ErrorCode + bool) \<Rightarrow> 'a list \<Rightarrow> 'b list \<Rightarrow> ErrorCode + bool" where
  "orderedScan m [] keys = Inr True"
| "orderedScan m (s # sigs) [] = Inr False"
| "orderedScan m (s # sigs) (k # keys) =
     (if length (s # sigs) > length (k # keys) then Inr False
      else
        (case m s k of
           Inl e \<Rightarrow> Inl e
         | Inr matched \<Rightarrow>
             if matched then orderedScan m sigs keys
             else orderedScan m (s # sigs) keys))"

text \<open>
  The invariants of the loop: the engine differs from the initial one in the cache only,
  and the cache does not change which signatures verify; a memoised signature is one
  whose encoding checks passed and whose parse result is stored.
\<close>

definition sameButCache :: "('s, 'k) Ext \<Rightarrow> ('s, 'k) Engine \<Rightarrow> ('s, 'k) Engine \<Rightarrow> bool" where
  "sameButCache X vm vm' =
     (vm' = vm\<lparr>sigCache := sigCache vm'\<rparr> \<and>
      (\<forall>h s k. fst (verifySig X vm' h s k) = fst (verifySig X vm h s k)))"

definition memoOK :: "('s, 'k) Ext \<Rightarrow> ('s, 'k) Engine \<Rightarrow> 's parsedSigInfo \<Rightarrow> byte list \<Rightarrow> bool" where
  "memoOK X vm si raw =
     (signature si = raw \<and>
      (\<not> parsed si \<longrightarrow> parsedSignature si = None) \<and>
      (parsed si \<longrightarrow>
         raw \<noteq> [] \<and> checkHashTypeEncoding X vm (last raw) = Inr () \<and>
         checkSignatureEncoding X vm (butlast raw) = Inr () \<and>
         parsedSignature si = parseSig X vm (butlast raw)))"

definition loopInv ::
  "('s, 'k) Ext \<Rightarrow> ('s, 'k) Engine \<Rightarrow> byte list list \<Rightarrow> 's parsedSigInfo list \<Rightarrow> ('s, 'k) Engine \<Rightarrow> bool" where
  "loopInv X vm0 raws sis vm =
     (length sis = length raws \<and> (\<forall>i < length raws. memoOK X vm0 (sis ! i) (raws ! i)) \<and>
      sameButCache X vm0 vm)"

text \<open>
A collaborator for the examples: a signature and a key are their byte strings, and a
  signature verifies under the key with the same bytes.
\<close>

definition toyExt :: "(byte list, byte list) Ext" where
  "toyExt =
     \<lparr>ParsePubKey = (\<lambda>b. if b = [] then None else Some b),
      ParseSignature = (\<lambda>b. if b = [] then None else Some b),
      ParseDERSignature = (\<lambda>b. if b = [] then None else Some b),
      Verify = (\<lambda>s h k. s = k),
      validHashType = (\<lambda>t. t = 1),
      validSignatureEncoding = (\<lambda>b. length b = 1),
      validPubKeyEncoding = (\<lambda>b. length b = 1),
      removeOpcodeByData = (\<lambda>scr d. scr),
      calcSignatureHash = (\<lambda>scr t tx i. []),
      calcWitnessSignatureHash = (\<lambda>scr t tx i. Inr [])\<rparr>"


definition checkMultiSigOp :: parsedOpcode where
  "checkMultiSigOp = \<lparr>opcode = opcodeArray OpCheckMultiSig, data = []\<rparr>"

definition multisigStack :: "byte list list \<Rightarrow> byte list list" where
  "multisigStack stackRest = [3] # [[1], [2], [3]] @ [2] # [[2, 1], [3, 1]] @ stackRest"

subsection \<open>The loop refines the scan\<close>

lemma last_conv: "xs \<noteq> [] \<Longrightarrow> xs ! (length xs - Suc 0) = last xs"
  by (simp add: last_conv_nth)

lemma butlast_conv: "take (length xs - Suc 0) xs = butlast xs"
  by (simp add: butlast_conv_take)

lemma sameButCache_refl: "sameButCache X vm vm"
  by (simp add: sameButCache_def)

lemma sameButCache_fields:
  assumes "sameButCache X vm0 vm"
  shows "flags vm = flags vm0" "witnessV0 vm = witnessV0 vm0" "tx vm = tx vm0"
    "txIdx vm = txIdx vm0" "dstack vm = dstack vm0" "script vm = script vm0"
    "lastCodeSep vm = lastCodeSep vm0" "condStack vm = condStack vm0"
    "numOps vm = numOps vm0" "verifyMinimalData vm = verifyMinimalData vm0"
proof -
  from assms have e: "vm = vm0\<lparr>sigCache := sigCache vm\<rparr>" by (simp add: sameButCache_def)
  show "flags vm = flags vm0" by (subst e) simp
  show "witnessV0 vm = witnessV0 vm0" by (subst e) simp
  show "tx vm = tx vm0" by (subst e) simp
  show "txIdx vm = txIdx vm0" by (subst e) simp
  show "dstack vm = dstack vm0" by (subst e) simp
  show "script vm = script vm0" by (subst e) simp
  show "lastCodeSep vm = lastCodeSep vm0" by (subst e) simp
  show "condStack vm = condStack vm0" by (subst e) simp
  show "numOps vm = numOps vm0" by (subst e) simp
  show "verifyMinimalData vm = verifyMinimalData vm0" by (subst e) simp
qed

lemma sameButCache_checks:
  assumes "sameButCache X vm0 vm"
  shows "checkHashTypeEncoding X vm = checkHashTypeEncoding X vm0"
    "checkSignatureEncoding X vm = checkSignatureEncoding X vm0"
    "checkPubKeyEncoding X vm = checkPubKeyEncoding X vm0"
    "parseSig X vm = parseSig X vm0"
    "sigHash X vm = sigHash X vm0"
    "hasFlag vm = hasFlag vm0"
  using sameButCache_fields [OF assms]
  by (auto simp: checkHashTypeEncoding_def checkSignatureEncoding_def checkPubKeyEncoding_def
      parseSig_def sigHash_def hasFlag_def strictEncoding_def isWitnessVersionActive_def
      fun_eq_iff)

lemma verifySig_same:
  assumes "sameButCache X vm0 vm" "verifySig X vm h s k = (v, vm')"
  shows "v = fst (verifySig X vm0 h s k) \<and> sameButCache X vm0 vm'"
proof -
  from assms(1) have e: "vm = vm0\<lparr>sigCache := sigCache vm\<rparr>"
    and f: "\<And>h s k. fst (verifySig X vm h s k) = fst (verifySig X vm0 h s k)"
    by (simp_all add: sameButCache_def)
  from assms(2) f [of h s k] have v: "v = fst (verifySig X vm0 h s k)" by simp
  have "sameButCache X vm0 vm'"
  proof (cases "sigCache vm")
    case None
    with assms(2) have "vm' = vm" by (simp add: verifySig_def)
    with assms(1) show ?thesis by simp
  next
    case (Some c)
    show ?thesis
    proof (cases "(h, s, k) \<notin> c \<and> Verify X s h k")
      case False
      with Some assms(2) have "vm' = vm" by (auto simp add: verifySig_def split: if_splits)
      with assms(1) show ?thesis by simp
    next
      case True
      with Some assms(2) have vm': "vm' = vm\<lparr>sigCache := Some (insert (h, s, k) c)\<rparr>"
        by (auto simp add: verifySig_def split: if_splits)
      have 1: "vm' = vm0\<lparr>sigCache := sigCache vm'\<rparr>"
        by (subst vm', subst e) (simp add: vm')
      have 2: "fst (verifySig X vm' h' s' k') = fst (verifySig X vm h' s' k')" for h' s' k'
        using True Some by (auto simp add: verifySig_def vm')
      from 1 2 f show ?thesis by (simp add: sameButCache_def)
    qed
  qed
  with v show ?thesis by simp
qed

lemma body_refines:
  assumes m: "memoOK X vm0 si raw" and c: "sameButCache X vm0 vm"
  shows "case checkSigAgainstKey X scr vm si pk of
           Inl e \<Rightarrow> sigMatchesKey X scr vm0 raw pk = Inl e
         | Inr (valid, si', vm') \<Rightarrow>
             sigMatchesKey X scr vm0 raw pk = Inr valid \<and> memoOK X vm0 si' raw \<and>
             sameButCache X vm0 vm'"
proof (cases "raw = []")
  case True
  with m c show ?thesis
    by (simp add: checkSigAgainstKey_def sigMatchesKey_def memoOK_def)
next
  case False
  note ck = sameButCache_checks [OF c]
  from m have sg: "signature si = raw" by (simp add: memoOK_def)
  show ?thesis
  proof (cases "parsed si")
    case True
    with m False have h: "checkHashTypeEncoding X vm0 (last raw) = Inr ()"
      "checkSignatureEncoding X vm0 (butlast raw) = Inr ()"
      "parsedSignature si = parseSig X vm0 (butlast raw)"
      by (simp_all add: memoOK_def)
    from False True m c show ?thesis
      unfolding checkSigAgainstKey_def sigMatchesKey_def
      by (auto simp add: Let_def sg ck h last_conv butlast_conv
          split: sum.splits option.splits prod.splits dest: verifySig_same)
  next
    case np: False
    from False np m c show ?thesis
      unfolding checkSigAgainstKey_def sigMatchesKey_def
      by (auto simp add: Let_def sg ck last_conv butlast_conv memoOK_def
          split: sum.splits option.splits prod.splits dest: verifySig_same)
  qed
qed

lemma loopInv_update:
  assumes "loopInv X vm0 raws sis vm" "i < length raws" "memoOK X vm0 si' (raws ! i)"
    "sameButCache X vm0 vm'"
  shows "loopInv X vm0 raws (sis[i := si']) vm'"
  using assms by (auto simp add: loopInv_def nth_list_update)

lemma loop_done:
  "\<not> 0 < ns \<Longrightarrow>
   checkMultiSigLoop X scr pubKeys (vm, sis, ns, np, pki, sgi) = Inr (True, sis, vm)"
  by (subst checkMultiSigLoop.simps) simp

lemma loop_exit:
  "0 < ns \<Longrightarrow> ns > np - 1 \<Longrightarrow>
   checkMultiSigLoop X scr pubKeys (vm, sis, ns, np, pki, sgi) = Inr (False, sis, vm)"
  by (subst checkMultiSigLoop.simps) (simp add: Let_def)

lemma loop_step:
  "0 < ns \<Longrightarrow> \<not> ns > np - 1 \<Longrightarrow> 0 \<le> sgi \<Longrightarrow> sgi < int (length sis) \<Longrightarrow>
   0 \<le> pki + 1 \<Longrightarrow> pki + 1 < int (length pubKeys) \<Longrightarrow>
   checkMultiSigLoop X scr pubKeys (vm, sis, ns, np, pki, sgi) =
     (case checkSigAgainstKey X scr vm (sis ! nat sgi) (pubKeys ! nat (pki + 1)) of
        Inl e \<Rightarrow> Inl e
      | Inr (valid, sigInfo, vm') \<Rightarrow>
          if valid then
            checkMultiSigLoop X scr pubKeys
              (vm', sis[nat sgi := sigInfo], ns - 1, np - 1, pki + 1, sgi + 1)
          else
            checkMultiSigLoop X scr pubKeys
              (vm', sis[nat sgi := sigInfo], ns, np - 1, pki + 1, sgi))"
  by (subst checkMultiSigLoop.simps) (simp add: Let_def)

lemma orderedScan_Cons:
  "sigs = s # ss \<Longrightarrow> keys = k # ks \<Longrightarrow>
   orderedScan m sigs keys =
     (if length sigs > length keys then Inr False
      else
        (case m s k of
           Inl e \<Rightarrow> Inl e
         | Inr matched \<Rightarrow>
             if matched then orderedScan m ss ks else orderedScan m sigs ks))"
  by auto

lemma loop_refines:
  assumes "loopInv X vm0 raws sis vm" "i \<le> length raws" "j \<le> length pubKeys"
    "n = length pubKeys - j"
  shows "case checkMultiSigLoop X scr pubKeys
                (vm, sis, int (length raws - i), int (length pubKeys - j) + 1, int j - 1, int i) of
           Inl e \<Rightarrow> orderedScan (sigMatchesKey X scr vm0) (drop i raws) (drop j pubKeys) = Inl e
         | Inr (success, sis', vm') \<Rightarrow>
             orderedScan (sigMatchesKey X scr vm0) (drop i raws) (drop j pubKeys) = Inr success \<and>
             loopInv X vm0 raws sis' vm'"
  using assms
proof (induction n arbitrary: i j sis vm)
  case 0
  then have j: "j = length pubKeys" by simp
  show ?case
  proof (cases "i < length raws")
    case True
    then obtain r rs where d: "drop i raws = r # rs" by (cases "drop i raws") simp_all
    from True have "0 < int (length raws - i)"
      "int (length raws - i) > int (length pubKeys - j) + 1 - 1" by (simp_all add: j)
    note ex = loop_exit [OF this]
    from d j "0.prems"(1) show ?thesis unfolding ex by simp
  next
    case False
    then have "\<not> 0 < int (length raws - i)" by simp
    note dn = loop_done [OF this]
    from False "0.prems" show ?thesis unfolding dn by simp
  qed
next
  case (Suc n)
  then have jlt: "j < length pubKeys" by simp
  let ?m = "sigMatchesKey X scr vm0"
  show ?case
  proof (cases "i < length raws")
    case False
    then have "\<not> 0 < int (length raws - i)" by simp
    note dn = loop_done [OF this]
    from False Suc.prems show ?thesis unfolding dn by simp
  next
    case True
    then have pos: "0 < int (length raws - i)" by simp
    have dr: "drop i raws = raws ! i # drop (Suc i) raws"
      using True by (simp add: Cons_nth_drop_Suc)
    have dk: "drop j pubKeys = pubKeys ! j # drop (Suc j) pubKeys"
      using jlt by (simp add: Cons_nth_drop_Suc)
    have lr: "length (drop i raws) = length raws - i"
      and lk: "length (drop j pubKeys) = length pubKeys - j" by simp_all
    show ?thesis
    proof (cases "length raws - i > length pubKeys - j")
      case gt: True
      then have "int (length raws - i) > int (length pubKeys - j) + 1 - 1" by simp
      note ex = loop_exit [OF pos this]
      have "orderedScan ?m (drop i raws) (drop j pubKeys) = Inr False"
        using gt by (subst orderedScan_Cons [OF dr dk]) simp
      with Suc.prems(1) show ?thesis unfolding ex by simp
    next
      case le: False
      from Suc.prems(1) have len: "length sis = length raws"
        and memo: "memoOK X vm0 (sis ! i) (raws ! i)"
        and same: "sameButCache X vm0 vm"
        using True by (simp_all add: loopInv_def)
      note body = body_refines [OF memo same, of scr "pubKeys ! j"]
      from le have checkMultiSig_dummy_pop: "\<not> int (length raws - i) > int (length pubKeys - j) + 1 - 1" by simp
      have a1: "int (length raws - i) - 1 = int (length raws - Suc i)" using True by simp
      have a2: "int (length pubKeys - j) + 1 - 1 = int (length pubKeys - Suc j) + 1"
        using jlt by simp
      have a3: "int j - 1 + 1 = int (Suc j) - 1" by simp
      have a4: "int i + 1 = int (Suc i)" by simp
      have unfold: "checkMultiSigLoop X scr pubKeys
                (vm, sis, int (length raws - i), int (length pubKeys - j) + 1, int j - 1, int i) =
          (case checkSigAgainstKey X scr vm (sis ! i) (pubKeys ! j) of
             Inl e \<Rightarrow> Inl e
           | Inr (valid, sigInfo, vm') \<Rightarrow>
               if valid then
                 checkMultiSigLoop X scr pubKeys
                   (vm', sis[i := sigInfo], int (length raws - Suc i),
                    int (length pubKeys - Suc j) + 1, int (Suc j) - 1, int (Suc i))
               else
                 checkMultiSigLoop X scr pubKeys
                   (vm', sis[i := sigInfo], int (length raws - i),
                    int (length pubKeys - Suc j) + 1, int (Suc j) - 1, int i))"
        using True jlt len
        by (subst loop_step [OF pos checkMultiSig_dummy_pop]) (simp_all only: a1 a2 a3 a4 nat_int, simp_all)
      have scan: "orderedScan ?m (drop i raws) (drop j pubKeys) =
          (case ?m (raws ! i) (pubKeys ! j) of
             Inl e \<Rightarrow> Inl e
           | Inr matched \<Rightarrow>
               if matched then orderedScan ?m (drop (Suc i) raws) (drop (Suc j) pubKeys)
               else orderedScan ?m (drop i raws) (drop (Suc j) pubKeys))"
        using le by (subst orderedScan_Cons [OF dr dk]) simp
      show ?thesis
      proof (cases "checkSigAgainstKey X scr vm (sis ! i) (pubKeys ! j)")
        case (Inl e)
        with body show ?thesis unfolding unfold scan by simp
      next
        case (Inr res)
        obtain valid si' vm' where res: "res = (valid, si', vm')" by (cases res) auto
        from body Inr res have mk: "?m (raws ! i) (pubKeys ! j) = Inr valid"
          and memo': "memoOK X vm0 si' (raws ! i)" and same': "sameButCache X vm0 vm'"
          by simp_all
        note inv' = loopInv_update [OF Suc.prems(1) True memo' same']
        from Suc.prems(4) jlt have n: "n = length pubKeys - Suc j" by simp
        from \<open>i < length raws\<close> jlt have si: "Suc i \<le> length raws" and sj: "Suc j \<le> length pubKeys"
          and ii: "i \<le> length raws"
          by simp_all
        show ?thesis
        proof (cases valid)
          case True
          have u: "checkMultiSigLoop X scr pubKeys
                (vm, sis, int (length raws - i), int (length pubKeys - j) + 1, int j - 1, int i) =
              checkMultiSigLoop X scr pubKeys
                   (vm', sis[i := si'], int (length raws - Suc i),
                    int (length pubKeys - Suc j) + 1, int (Suc j) - 1, int (Suc i))"
            unfolding unfold by (simp add: Inr res True)
          have sc: "orderedScan ?m (drop i raws) (drop j pubKeys) =
              orderedScan ?m (drop (Suc i) raws) (drop (Suc j) pubKeys)"
            unfolding scan by (simp add: mk True)
          show ?thesis unfolding u sc by (rule Suc.IH [OF inv' si sj n])
        next
          case False
          have u: "checkMultiSigLoop X scr pubKeys
                (vm, sis, int (length raws - i), int (length pubKeys - j) + 1, int j - 1, int i) =
              checkMultiSigLoop X scr pubKeys
                   (vm', sis[i := si'], int (length raws - i),
                    int (length pubKeys - Suc j) + 1, int (Suc j) - 1, int i)"
            unfolding unfold by (simp add: Inr res False)
          have sc: "orderedScan ?m (drop i raws) (drop j pubKeys) =
              orderedScan ?m (drop i raws) (drop (Suc j) pubKeys)"
            unfolding scan by (simp add: mk False)
          show ?thesis unfolding u sc by (rule Suc.IH [OF inv' ii sj n])
        qed
      qed
    qed
  qed
qed

lemma memoOK_new: "memoOK X vm (newSigInfo r) r"
  by (simp add: memoOK_def newSigInfo_def)

lemma loopInv_new: "loopInv X vm raws (map newSigInfo raws) vm"
  by (simp add: loopInv_def memoOK_new sameButCache_refl)

lemma loop_refines_start:
  "case checkMultiSigLoop X scr pubKeys
          (vm, map newSigInfo rawSigs, int (length rawSigs), int (length pubKeys) + 1, - 1, 0) of
     Inl e \<Rightarrow> orderedScan (sigMatchesKey X scr vm) rawSigs pubKeys = Inl e
   | Inr (success, sis', vm') \<Rightarrow>
       orderedScan (sigMatchesKey X scr vm) rawSigs pubKeys = Inr success \<and>
       loopInv X vm rawSigs sis' vm'"
  using loop_refines [OF loopInv_new, where i = 0 and j = 0 and raws = rawSigs
      and pubKeys = pubKeys and n = "length pubKeys" and X = X and vm = vm and scr = scr]
  by (simp cong: sum.case_cong prod.case_cong)





subsection \<open>Stack effect of CHECKMULTISIG\<close>

lemma frame_dstack [simp]:
  "hasFlag (vm\<lparr>dstack := d\<rparr>) = hasFlag vm"
  "isWitnessVersionActive (vm\<lparr>dstack := d\<rparr>) = isWitnessVersionActive vm"
  "subScript (vm\<lparr>dstack := d\<rparr>) = subScript vm"
  "strictEncoding (vm\<lparr>dstack := d\<rparr>) = strictEncoding vm"
  "checkHashTypeEncoding X (vm\<lparr>dstack := d\<rparr>) = checkHashTypeEncoding X vm"
  "checkSignatureEncoding X (vm\<lparr>dstack := d\<rparr>) = checkSignatureEncoding X vm"
  "checkPubKeyEncoding X (vm\<lparr>dstack := d\<rparr>) = checkPubKeyEncoding X vm"
  "parseSig X (vm\<lparr>dstack := d\<rparr>) = parseSig X vm"
  "sigHash X (vm\<lparr>dstack := d\<rparr>) = sigHash X vm"
  "checkSigScript X (vm\<lparr>dstack := d\<rparr>) = checkSigScript X vm"
  "multiSigScript X (vm\<lparr>dstack := d\<rparr>) = multiSigScript X vm"
  by (simp_all add: fun_eq_iff hasFlag_def isWitnessVersionActive_def subScript_def
      strictEncoding_def checkHashTypeEncoding_def checkSignatureEncoding_def
      checkPubKeyEncoding_def parseSig_def sigHash_def checkSigScript_def multiSigScript_def)

lemma verifySig_dstack:
  "verifySig X (vm\<lparr>dstack := d\<rparr>) h s k =
     (fst (verifySig X vm h s k), (snd (verifySig X vm h s k))\<lparr>dstack := d\<rparr>)"
  by (simp add: verifySig_def split: option.splits)


lemma sigMatchesKey_dstack [simp]:
  "sigMatchesKey X scr (vm\<lparr>dstack := d\<rparr>) = sigMatchesKey X scr vm"
  by (simp add: fun_eq_iff sigMatchesKey_def verifySig_dstack
      cong: sum.case_cong option.case_cong)

lemma popByteArrays_shape:
  "dstack vm = xs @ rest \<Longrightarrow> popByteArrays (length xs) vm = Inr (xs, vm\<lparr>dstack := rest\<rparr>)"
proof (induction xs arbitrary: vm)
  case Nil
  then have "vm\<lparr>dstack := rest\<rparr> = vm" by simp
  then show ?case by simp
next
  case (Cons x xs)
  from Cons.prems have p: "PopByteArray vm = Inr (x, vm\<lparr>dstack := xs @ rest\<rparr>)"
    by (simp add: PopByteArray_def)
  have "dstack (vm\<lparr>dstack := xs @ rest\<rparr>) = xs @ rest" by simp
  from Cons.IH [OF this] show ?case by (simp add: p)
qed

lemma PopInt_shape:
  "dstack vm = so # rest \<Longrightarrow> makeScriptNum so (verifyMinimalData vm) 4 = Inr n \<Longrightarrow>
   PopInt vm = Inr (n, vm\<lparr>dstack := rest\<rparr>)"
  by (simp add: PopInt_def PopByteArray_def)

lemma popMultiSigArgs_shape:
  assumes st: "dstack vm = nk # pubKeys @ ns # rawSigs @ stackRest"
    and nk: "makeScriptNum nk (verifyMinimalData vm) 4 = Inr numKeys"
    and nkv: "Int32 numKeys = int (length pubKeys)"
    and mx: "int (length pubKeys) \<le> MaxPubKeysPerMultiSig K"
    and ops: "numOps vm + int (length pubKeys) \<le> MaxOpsPerScript K"
    and ns: "makeScriptNum ns (verifyMinimalData vm) 4 = Inr numSigs"
    and nsv: "Int32 numSigs = int (length rawSigs)"
    and le: "length rawSigs \<le> length pubKeys"
  shows "popMultiSigArgs K vm =
     (case stackRest of
        [] \<Rightarrow> Inl ErrStackUnderflow
      | dummy # rest \<Rightarrow>
          if hasFlag vm ScriptStrictMultiSig \<and> dummy \<noteq> [] then Inl ErrSigNullDummy
          else Inr (int (length pubKeys), pubKeys, int (length rawSigs), rawSigs, dummy,
                    vm\<lparr>dstack := rest, numOps := numOps vm + int (length pubKeys)\<rparr>))"
proof -
  let ?N = "numOps vm + int (length pubKeys)"
  have 1: "PopInt vm = Inr (numKeys, vm\<lparr>dstack := pubKeys @ ns # rawSigs @ stackRest\<rparr>)"
    by (rule PopInt_shape [OF st nk])
  have 2: "popByteArrays (nat (int (length pubKeys)))
             (vm\<lparr>dstack := pubKeys @ ns # rawSigs @ stackRest, numOps := ?N\<rparr>) =
           Inr (pubKeys, vm\<lparr>dstack := ns # rawSigs @ stackRest, numOps := ?N\<rparr>)"
    using popByteArrays_shape
      [of "vm\<lparr>dstack := pubKeys @ ns # rawSigs @ stackRest, numOps := ?N\<rparr>" pubKeys
        "ns # rawSigs @ stackRest"]
    by simp
  have 3: "PopInt (vm\<lparr>dstack := ns # rawSigs @ stackRest, numOps := ?N\<rparr>) =
           Inr (numSigs, vm\<lparr>dstack := rawSigs @ stackRest, numOps := ?N\<rparr>)"
    using PopInt_shape [of "vm\<lparr>dstack := ns # rawSigs @ stackRest, numOps := ?N\<rparr>" ns
        "rawSigs @ stackRest" numSigs] ns
    by simp
  have 4: "popByteArrays (nat (int (length rawSigs)))
             (vm\<lparr>dstack := rawSigs @ stackRest, numOps := ?N\<rparr>) =
           Inr (rawSigs, vm\<lparr>dstack := stackRest, numOps := ?N\<rparr>)"
    using popByteArrays_shape [of "vm\<lparr>dstack := rawSigs @ stackRest, numOps := ?N\<rparr>" rawSigs
        stackRest]
    by simp
  show ?thesis
    unfolding popMultiSigArgs_def 1 using mx ops le
    by (auto simp add: Let_def nkv nsv 2 3 4 PopByteArray_def hasFlag_def split: list.splits
        simp del: nat_int)
qed

lemma verifyMultiSig_result:
  "\<exists>vm'. sameButCache X vm vm' \<and>
     verifyMultiSig X (int (length pubKeys)) pubKeys
         (int (length rawSigs)) rawSigs vm =
     (case orderedScan (sigMatchesKey X (multiSigScript X vm rawSigs) vm) rawSigs pubKeys of
        Inl e \<Rightarrow> Inl e
      | Inr success \<Rightarrow>
          if \<not> success \<and> hasFlag vm ScriptVerifyNullFail \<and> (\<exists>s \<in> set rawSigs. s \<noteq> [])
            then Inl ErrNullFail
          else Inr (PushBool success vm'))"
proof -
  let ?scr = "multiSigScript X vm rawSigs"
  have ms: "map (signature \<circ> (newSigInfo :: byte list \<Rightarrow> 'a parsedSigInfo)) rawSigs = rawSigs"
    by (induction rawSigs) (simp_all add: newSigInfo_def)
  note r = loop_refines_start [where X = X and scr = ?scr and pubKeys = pubKeys and vm = vm
      and rawSigs = rawSigs]
  show ?thesis
  proof (cases "checkMultiSigLoop X ?scr pubKeys
          (vm, map newSigInfo rawSigs, int (length rawSigs), int (length pubKeys) + 1, - 1, 0)")
    case (Inl e)
    with r have "verifyMultiSig X (int (length pubKeys)) pubKeys
         (int (length rawSigs)) rawSigs vm =
     (case orderedScan (sigMatchesKey X (multiSigScript X vm rawSigs) vm) rawSigs pubKeys of
        Inl e \<Rightarrow> Inl e
      | Inr success \<Rightarrow>
          if \<not> success \<and> hasFlag vm ScriptVerifyNullFail \<and> (\<exists>s \<in> set rawSigs. s \<noteq> [])
            then Inl ErrNullFail
          else Inr (PushBool success vm))"
      by (simp add: verifyMultiSig_def Let_def ms)
    with sameButCache_refl [of X vm] show ?thesis by blast
  next
    case (Inr res)
    obtain success sis vm' where res: "res = (success, sis, vm')" by (cases res) auto
    from r Inr res have sc: "orderedScan (sigMatchesKey X ?scr vm) rawSigs pubKeys = Inr success"
      and inv: "loopInv X vm rawSigs sis vm'" by simp_all
    from inv have same: "sameButCache X vm vm'" and len: "length sis = length rawSigs"
      and memo: "\<forall>i < length rawSigs. memoOK X vm (sis ! i) (rawSigs ! i)"
      by (simp_all add: loopInv_def)
    have msig: "map signature sis = rawSigs"
    proof (rule nth_equalityI)
      show "length (map signature sis) = length rawSigs" by (simp add: len)
    next
      fix i assume "i < length (map signature sis)"
      then have i: "i < length rawSigs" by (simp add: len)
      with memo have "signature (sis ! i) = rawSigs ! i" by (simp add: memoOK_def)
      with i show "map signature sis ! i = rawSigs ! i" by (simp add: len)
    qed
    have "set rawSigs = signature ` set sis" by (simp flip: msig)
    then have ex: "(\<forall>sig \<in> set sis. signature sig = []) = (\<forall>s \<in> set rawSigs. s = [])"
      "(\<exists>sig \<in> set sis. signature sig \<noteq> []) = (\<exists>s \<in> set rawSigs. s \<noteq> [])"
      by simp_all
    have fl: "hasFlag vm' = hasFlag vm" by (rule sameButCache_checks(6) [OF same])
    have "verifyMultiSig X (int (length pubKeys)) pubKeys
         (int (length rawSigs)) rawSigs vm =
     (case orderedScan (sigMatchesKey X (multiSigScript X vm rawSigs) vm) rawSigs pubKeys of
        Inl e \<Rightarrow> Inl e
      | Inr success \<Rightarrow>
          if \<not> success \<and> hasFlag vm ScriptVerifyNullFail \<and> (\<exists>s \<in> set rawSigs. s \<noteq> [])
            then Inl ErrNullFail
          else Inr (PushBool success vm'))"
      by (simp add: verifyMultiSig_def Let_def ms Inr res sc ex fl)
    with same show ?thesis by blast
  qed
qed

lemma PushBool_dstack:
  "sameButCache X vm vm' \<Longrightarrow> dstack (PushBool b vm') = fromBool b # dstack vm"
  by (simp add: PushBool_def PushByteArray_def sameButCache_fields(5))

text \<open>
  C2. After the key count, the keys, the signature count and the signatures, exactly one
  more item is popped, for every number of keys and signatures: without it the handler
  fails with stack underflow, and with it the result is pushed on the rest of the stack.
  With the strict-multisig flag a non-empty dummy is the null-dummy error; without the
  flag the outcome does not depend on the dummy.
\<close>

theorem checkMultiSig_dummy_pop:
  assumes st: "dstack vm = nk # pubKeys @ ns # rawSigs @ stackRest"
    and nk: "makeScriptNum nk (verifyMinimalData vm) 4 = Inr numKeys"
    and nkv: "Int32 numKeys = int (length pubKeys)"
    and mx: "int (length pubKeys) \<le> MaxPubKeysPerMultiSig K"
    and ops: "numOps vm + int (length pubKeys) \<le> MaxOpsPerScript K"
    and ns: "makeScriptNum ns (verifyMinimalData vm) 4 = Inr numSigs"
    and nsv: "Int32 numSigs = int (length rawSigs)"
    and le: "length rawSigs \<le> length pubKeys"
  shows "case stackRest of
       [] \<Rightarrow> opcodeCheckMultiSig K X op vm = Inl ErrStackUnderflow
     | dummy # rest \<Rightarrow>
         if hasFlag vm ScriptStrictMultiSig \<and> dummy \<noteq> []
         then opcodeCheckMultiSig K X op vm = Inl ErrSigNullDummy
         else opcodeCheckMultiSig K X op vm =
                verifyMultiSig X (int (length pubKeys)) pubKeys
         (int (length rawSigs)) rawSigs
                  (vm\<lparr>dstack := rest, numOps := numOps vm + int (length pubKeys)\<rparr>) \<and>
              (\<forall>vm'. opcodeCheckMultiSig K X op vm = Inr vm' \<longrightarrow>
                 (\<exists>b. dstack vm' = fromBool b # rest))"
proof (cases stackRest)
  case Nil
  with popMultiSigArgs_shape [OF st nk nkv mx ops ns nsv le] show ?thesis
    by (simp add: opcodeCheckMultiSig_def)
next
  case (Cons dummy rest)
  let ?vm1 = "vm\<lparr>dstack := rest, numOps := numOps vm + int (length pubKeys)\<rparr>"
  show ?thesis
  proof (cases "hasFlag vm ScriptStrictMultiSig \<and> dummy \<noteq> []")
    case True
    with Cons popMultiSigArgs_shape [OF st nk nkv mx ops ns nsv le] show ?thesis
      by (simp add: opcodeCheckMultiSig_def)
  next
    case False
    with Cons popMultiSigArgs_shape [OF st nk nkv mx ops ns nsv le]
    have e: "opcodeCheckMultiSig K X op vm = verifyMultiSig X (int (length pubKeys)) pubKeys
         (int (length rawSigs)) rawSigs ?vm1"
      by (auto simp add: opcodeCheckMultiSig_def)
    from verifyMultiSig_result [of X ?vm1 pubKeys rawSigs] obtain vm2
      where same: "sameButCache X ?vm1 vm2"
        and r: "verifyMultiSig X (int (length pubKeys)) pubKeys
         (int (length rawSigs)) rawSigs ?vm1 =
          (case orderedScan (sigMatchesKey X (multiSigScript X ?vm1 rawSigs) ?vm1) rawSigs pubKeys of
             Inl e \<Rightarrow> Inl e
           | Inr success \<Rightarrow>
               if \<not> success \<and> hasFlag ?vm1 ScriptVerifyNullFail \<and> (\<exists>s \<in> set rawSigs. s \<noteq> [])
                 then Inl ErrNullFail
               else Inr (PushBool success vm2))"
      by blast
    have "\<exists>b. dstack vm' = fromBool b # rest" if "verifyMultiSig X (int (length pubKeys)) pubKeys
         (int (length rawSigs)) rawSigs ?vm1 = Inr vm'" for vm'
    proof -
      from that r obtain b where "vm' = PushBool b vm2"
        by (auto split: sum.splits if_splits)
      with PushBool_dstack [OF same, of b] show ?thesis by auto
    qed
    with e Cons False show ?thesis by auto
  qed
qed

theorem checkMultiSig_dummy_pop_witness:
  "opcodeCheckMultiSig consts0 toyExt checkMultiSigOp
     (emptyEngine\<lparr>dstack := multisigStack [[0x42], [9]]\<rparr>) =
     verifyMultiSig toyExt 3 [[1], [2], [3]] 2 [[2, 1], [3, 1]]
       (emptyEngine\<lparr>dstack := [[9]], numOps := 3\<rparr>) \<and>
   opcodeCheckMultiSig consts0 toyExt checkMultiSigOp
     (emptyEngine\<lparr>flags := {ScriptStrictMultiSig}, dstack := multisigStack [[0x42], [9]]\<rparr>) =
     Inl ErrSigNullDummy \<and>
   opcodeCheckMultiSig consts0 toyExt checkMultiSigOp
     (emptyEngine\<lparr>dstack := multisigStack []\<rparr>) = Inl ErrStackUnderflow"
proof -
  have n: "makeScriptNum [3] False 4 = Inr 3" "makeScriptNum [2] False 4 = Inr 2"
    by (simp_all add: makeScriptNum_def leUint_def)
  have 1: "opcodeCheckMultiSig consts0 toyExt checkMultiSigOp
     (emptyEngine\<lparr>dstack := multisigStack [[0x42], [9]]\<rparr>) =
     verifyMultiSig toyExt 3 [[1], [2], [3]] 2 [[2, 1], [3, 1]]
       (emptyEngine\<lparr>dstack := [[9]], numOps := 3\<rparr>)"
    using checkMultiSig_dummy_pop [where vm = "emptyEngine\<lparr>dstack := multisigStack [[0x42], [9]]\<rparr>" and nk = "[3]"
        and pubKeys = "[[1], [2], [3]]" and ns = "[2]" and rawSigs = "[[2, 1], [3, 1]]"
        and stackRest = "[[0x42], [9]]" and numKeys = 3 and numSigs = 2 and K = consts0
        and X = toyExt and op = checkMultiSigOp]
    by (simp add: multisigStack_def emptyEngine_def n Int32_def consts0_def hasFlag_def)
  have 2: "opcodeCheckMultiSig consts0 toyExt checkMultiSigOp
     (emptyEngine\<lparr>flags := {ScriptStrictMultiSig}, dstack := multisigStack [[0x42], [9]]\<rparr>) =
     Inl ErrSigNullDummy"
    using checkMultiSig_dummy_pop [where vm = "emptyEngine\<lparr>flags := {ScriptStrictMultiSig}, dstack := multisigStack [[0x42], [9]]\<rparr>"
        and nk = "[3]"
        and pubKeys = "[[1], [2], [3]]" and ns = "[2]" and rawSigs = "[[2, 1], [3, 1]]"
        and stackRest = "[[0x42], [9]]" and numKeys = 3 and numSigs = 2 and K = consts0
        and X = toyExt and op = checkMultiSigOp]
    by (simp add: multisigStack_def emptyEngine_def n Int32_def consts0_def hasFlag_def)
  have 3: "opcodeCheckMultiSig consts0 toyExt checkMultiSigOp
     (emptyEngine\<lparr>dstack := multisigStack []\<rparr>) = Inl ErrStackUnderflow"
    using checkMultiSig_dummy_pop [where vm = "emptyEngine\<lparr>dstack := multisigStack []\<rparr>" and nk = "[3]"
        and pubKeys = "[[1], [2], [3]]" and ns = "[2]" and rawSigs = "[[2, 1], [3, 1]]"
        and stackRest = "[]" and numKeys = 3 and numSigs = 2 and K = consts0
        and X = toyExt and op = checkMultiSigOp]
    by (simp add: multisigStack_def emptyEngine_def n Int32_def consts0_def hasFlag_def)
  from 1 2 3 show ?thesis by blast
qed

subsection \<open>Encoding errors in CHECKSIG\<close>



subsection \<open>The null-fail policy\<close>










section \<open>The engine step\<close>

text \<open>
\<open>isDisabled\<close>, \<open>alwaysIllegal\<close>, \<open>isConditional\<close> and the handlers \<open>opcodeDisabled\<close>,
  \<open>opcodeReserved\<close>, \<open>opcodeFalse\<close> of opcode.go.
\<close>

definition isDisabled :: "parsedOpcode \<Rightarrow> bool" where
  "isDisabled pop =
     (let v = opvalue (opcode pop) in
      v = OpCat \<or> v = OpSubstr \<or> v = OpLeft \<or> v = OpRight \<or> v = OpInvert \<or> v = OpAnd \<or>
      v = OpOr \<or> v = OpXor \<or> v = Op1Mul \<or> v = Op2Div \<or> v = OpMul \<or> v = OpDiv \<or>
      v = OpMod \<or> v = OpLShift \<or> v = OpRShift)"

definition alwaysIllegal :: "parsedOpcode \<Rightarrow> bool" where
  "alwaysIllegal pop = (let v = opvalue (opcode pop) in v = OpVerIf \<or> v = OpVerIfNot)"

definition isConditional :: "parsedOpcode \<Rightarrow> bool" where
  "isConditional pop =
     (let v = opvalue (opcode pop) in v = OpIf \<or> v = OpIfNot \<or> v = OpElse \<or> v = OpEndIf)"

definition opcodeDisabled :: "parsedOpcode \<Rightarrow> ('s, 'k) Engine \<Rightarrow> ErrorCode + ('s, 'k) Engine" where
  "opcodeDisabled op vm = Inl ErrDisabledOpcode"

definition opcodeReserved :: "parsedOpcode \<Rightarrow> ('s, 'k) Engine \<Rightarrow> ErrorCode + ('s, 'k) Engine" where
  "opcodeReserved op vm = Inl ErrReservedOpcode"

definition opcodeFalse :: "parsedOpcode \<Rightarrow> ('s, 'k) Engine \<Rightarrow> ErrorCode + ('s, 'k) Engine" where
  "opcodeFalse op vm = Inr (PushByteArray [] vm)"

text \<open>
  The handler column of \<open>opcodeArray\<close> for the opcodes modelled here; \<open>other\<close> stands for
  the handlers of the remaining opcodes.
\<close>

definition opfunc ::
  "Consts \<Rightarrow> ('s, 'k) Ext \<Rightarrow> (parsedOpcode \<Rightarrow> ('s, 'k) Engine \<Rightarrow> ErrorCode + ('s, 'k) Engine) \<Rightarrow>
   byte \<Rightarrow> parsedOpcode \<Rightarrow> ('s, 'k) Engine \<Rightarrow> ErrorCode + ('s, 'k) Engine" where
  "opfunc K X other v =
     (if v = OpZero then opcodeFalse
      else if v = OpIf then opcodeIf
      else if v = OpIfNot then opcodeNotIf
      else if v = OpVerIf \<or> v = OpVerIfNot then opcodeReserved
      else if v = OpElse then opcodeElse
      else if v = OpEndIf then opcodeEndif
      else if v = OpCheckLockTimeVerify then opcodeCheckLockTimeVerify K
      else if v = OpCat \<or> v = OpSubstr \<or> v = OpLeft \<or> v = OpRight then opcodeDisabled
      else if v = OpInvert \<or> v = OpAnd \<or> v = OpOr \<or> v = OpXor then opcodeDisabled
      else if v = Op1Mul \<or> v = Op2Div then opcodeDisabled
      else if v = OpMul \<or> v = OpDiv \<or> v = OpMod \<or> v = OpLShift \<or> v = OpRShift
        then opcodeDisabled
      else if v = OpCheckSig then opcodeCheckSig X
      else if v = OpCheckMultiSig then opcodeCheckMultiSig K X
      else other)"

text \<open>
  Modelled from the spec: the engine's step and its iteration over the decoded script
  (engine.go, not among the sources). Section 4.4: for each parsed opcode the engine first
  checks, unconditionally, whether it is always illegal and whether it is disabled; it
  then checks whether the current branch is executing; the conditional opcodes always run;
  every other opcode runs its handler only on an executing branch and is skipped
  otherwise. The operation count and the final checks of that section come after these
  and are left out.
\<close>

definition executeOpcode ::
  "Consts \<Rightarrow> ('s, 'k) Ext \<Rightarrow> (parsedOpcode \<Rightarrow> ('s, 'k) Engine \<Rightarrow> ErrorCode + ('s, 'k) Engine) \<Rightarrow>
   parsedOpcode \<Rightarrow> ('s, 'k) Engine \<Rightarrow> ErrorCode + ('s, 'k) Engine" where
  "executeOpcode K X other pop vm =
     (if alwaysIllegal pop then Inl ErrReservedOpcode
      else if isDisabled pop then Inl ErrDisabledOpcode
      else if \<not> isBranchExecuting vm \<and> \<not> isConditional pop then Inr vm
      else opfunc K X other (opvalue (opcode pop)) pop vm)"

fun runOpcodes ::
  "Consts \<Rightarrow> ('s, 'k) Ext \<Rightarrow> (parsedOpcode \<Rightarrow> ('s, 'k) Engine \<Rightarrow> ErrorCode + ('s, 'k) Engine) \<Rightarrow>
   parsedOpcode list \<Rightarrow> ('s, 'k) Engine \<Rightarrow> ErrorCode + ('s, 'k) Engine" where
  "runOpcodes K X other [] vm = Inr vm"
| "runOpcodes K X other (pop # pops) vm =
     (case executeOpcode K X other pop vm of
        Inl e \<Rightarrow> Inl e
      | Inr vm' \<Rightarrow> runOpcodes K X other pops vm')"

text \<open>
The disabled set by value: CAT, SUBSTR, LEFT, RIGHT, INVERT, AND, OR, XOR, 2MUL, 2DIV,
  MUL, DIV, MOD, LSHIFT, RSHIFT.
\<close>

definition disabledValues :: "byte set" where
  "disabledValues =
     {0x7e, 0x7f, 0x80, 0x81, 0x83, 0x84, 0x85, 0x86, 0x8d, 0x8e, 0x95, 0x96, 0x97, 0x98, 0x99}"

definition noHandler :: "parsedOpcode \<Rightarrow> ('s, 'k) Engine \<Rightarrow> ErrorCode + ('s, 'k) Engine" where
  "noHandler op vm = Inr vm"

subsection \<open>Disabled opcodes\<close>

lemma isDisabled_values: "isDisabled pop = (opvalue (opcode pop) \<in> disabledValues)"
  by (auto simp add: isDisabled_def disabledValues_def opcode_values Let_def)

lemma isDisabled_not_illegal: "isDisabled pop \<Longrightarrow> \<not> alwaysIllegal pop"
  by (auto simp add: isDisabled_def alwaysIllegal_def opcode_values Let_def)

lemma opfunc_disabled:
  "isDisabled pop \<Longrightarrow> opfunc K X other (opvalue (opcode pop)) = opcodeDisabled"
  by (auto simp add: isDisabled_def opfunc_def opcode_values Let_def)

lemma runOpcodes_append:
  "runOpcodes K X other (pre @ post) vm =
     (case runOpcodes K X other pre vm of
        Inl e \<Rightarrow> Inl e
      | Inr vm' \<Rightarrow> runOpcodes K X other post vm')"
  by (induction pre arbitrary: vm) (simp_all split: sum.splits)

text \<open>
  C5. The disabled opcodes are exactly the fifteen listed. When the program counter
  reaches one of them, the step fails with the disabled-opcode error in every state, also
  when the branch is not executing, and so does the whole evaluation; the handler the
  table gives them returns the same error.
\<close>

theorem disabled_opcode_aborts:
  "isDisabled pop = (opvalue (opcode pop) \<in> disabledValues) \<and>
   (isDisabled pop \<longrightarrow>
      executeOpcode K X other pop vm = Inl ErrDisabledOpcode \<and>
      opfunc K X other (opvalue (opcode pop)) pop vm = Inl ErrDisabledOpcode \<and>
      (\<forall>vm0 pre post. runOpcodes K X other pre vm0 = Inr vm \<longrightarrow>
         runOpcodes K X other (pre @ pop # post) vm0 = Inl ErrDisabledOpcode))"
proof (intro conjI impI allI)
  show "isDisabled pop = (opvalue (opcode pop) \<in> disabledValues)" by (rule isDisabled_values)
next
  assume d: "isDisabled pop"
  then show e: "executeOpcode K X other pop vm = Inl ErrDisabledOpcode"
    by (simp add: executeOpcode_def isDisabled_not_illegal)
  from d show "opfunc K X other (opvalue (opcode pop)) pop vm = Inl ErrDisabledOpcode"
    by (simp add: opfunc_disabled opcodeDisabled_def)
  fix vm0 pre post
  assume "runOpcodes K X other pre vm0 = Inr vm"
  with e show "runOpcodes K X other (pre @ pop # post) vm0 = Inl ErrDisabledOpcode"
    by (simp add: runOpcodes_append)
qed

theorem disabled_opcode_aborts_witness:
  "isDisabled \<lparr>opcode = opcodeArray OpCat, data = []\<rparr> \<and>
   runOpcodes consts0 toyExt noHandler
     [\<lparr>opcode = opcodeArray OpZero, data = []\<rparr>, \<lparr>opcode = opcodeArray OpIf, data = []\<rparr>] emptyEngine
     = Inr (emptyEngine\<lparr>condStack := [OpCondFalse]\<rparr>) \<and>
   \<not> isBranchExecuting (emptyEngine\<lparr>condStack := [OpCondFalse]\<rparr>) \<and>
   runOpcodes consts0 toyExt noHandler
     [\<lparr>opcode = opcodeArray OpZero, data = []\<rparr>, \<lparr>opcode = opcodeArray OpIf, data = []\<rparr>,
      \<lparr>opcode = opcodeArray OpCat, data = []\<rparr>, \<lparr>opcode = opcodeArray OpEndIf, data = []\<rparr>] emptyEngine
     = Inl ErrDisabledOpcode"
proof -
  let ?cat = "\<lparr>opcode = opcodeArray OpCat, data = []\<rparr>"
  have d: "isDisabled ?cat" by (simp add: isDisabled_def)
  have r: "runOpcodes consts0 toyExt noHandler
     [\<lparr>opcode = opcodeArray OpZero, data = []\<rparr>, \<lparr>opcode = opcodeArray OpIf, data = []\<rparr>] emptyEngine
     = Inr (emptyEngine\<lparr>condStack := [OpCondFalse]\<rparr>)"
    by (simp add: executeOpcode_def alwaysIllegal_def isDisabled_def isConditional_def opfunc_def
        opcode_values isBranchExecuting_def emptyEngine_def opcodeFalse_def PushByteArray_def
        opcodeIf_def popIfBool_def isWitnessVersionActive_def PopBool_def PopByteArray_def)
  have n: "\<not> isBranchExecuting (emptyEngine\<lparr>condStack := [OpCondFalse]\<rparr>)"
    by (simp add: isBranchExecuting_def OpCondFalse_def OpCondTrue_def)
  from disabled_opcode_aborts [where pop = ?cat and K = consts0 and X = toyExt and other = noHandler
      and vm = "emptyEngine\<lparr>condStack := [OpCondFalse]\<rparr>"] d r
  have "runOpcodes consts0 toyExt noHandler
     ([\<lparr>opcode = opcodeArray OpZero, data = []\<rparr>, \<lparr>opcode = opcodeArray OpIf, data = []\<rparr>] @
      ?cat # [\<lparr>opcode = opcodeArray OpEndIf, data = []\<rparr>]) emptyEngine = Inl ErrDisabledOpcode"
    by blast
  with d r n show ?thesis by simp
qed

end
